theory Spec2Isabelle
  imports Main
begin

section \<open>The entry point of the action: \<^verbatim>\<open>run()\<close> of main.ts\<close>

text \<open>
  \<^verbatim>\<open>run()\<close> is one async function: a platform guard, the reading and validation of
  the inputs, the installation of the SDK, the launch of the emulator, the caller's
  script inside its own try/catch, and the kill of the emulator, all inside an outer
  try/catch whose handler kills the emulator and reports the error.

  Everything \<^verbatim>\<open>run()\<close> calls lives outside main.ts. Each such call is recorded, with
  its arguments and with how it ended, in a trace; the claims are statements about
  the trace of a run.
\<close>

subsection \<open>Calls and their outcomes\<close>

text \<open>
  One constructor per function that main.ts calls. \<open>'n\<close> is the type of JavaScript
  numbers (\<^verbatim>\<open>apiLevel\<close>, \<^verbatim>\<open>channelId\<close>); \<^verbatim>\<open>undefined\<close> for an optional string is
  \<open>None\<close>.
\<close>

datatype 'n call =
    ConsoleWarn string
  | ConsoleLog string
  | GetInput string bool
  | CheckApiLevel string
  | CheckTarget string
  | CheckArch string
  | CheckForceAvdCreation string
  | CheckDisableAnimations string
  | CheckDisableSpellchecker string
  | CheckDisableLinuxHardwareAcceleration string
  | CheckEnableHardwareKeyboard string
  | CheckEmulatorBuild string
  | CheckChannel string
  | GetChannelId string
  | ParseScript string
  | InstallAndroidSdk 'n string string 'n "string option" "string option" "string option"
  | LaunchEmulator 'n string string string string string string string
      bool string bool bool bool bool
  | Chdir string
  | Exec string "string list"
  | KillEmulator
  | SetFailed string

text \<open>A call returns, or throws an \<^verbatim>\<open>Error\<close> whose \<^verbatim>\<open>message\<close> is the string.\<close>

datatype outcome = Returned | Threw string

type_synonym 'n event = "'n call \<times> outcome"

subsection \<open>The environment of a run\<close>

text \<open>
  The functions imported by main.ts are not part of it; they are the parameters of the
  model. A function that can throw returns \<open>Some message\<close> (or \<open>Inl message\<close> when it
  also has a result). The functions that act on the machine (SDK installer, emulator
  manager, \<^verbatim>\<open>exec.exec\<close>, \<^verbatim>\<open>process.chdir\<close>) take the state \<open>'w\<close> of the machine and
  return the new one, so that their outcome may depend on everything done before.

  \<^item> \<open>platform\<close> is \<^verbatim>\<open>process.platform\<close>.
  \<^item> \<open>getInput name required\<close> is \<^verbatim>\<open>core.getInput(name, { required })\<close>, which throws
    when a required input is not supplied.
  \<^item> \<open>js_Number\<close>, \<open>js_String\<close> and \<open>js_trim\<close> are \<^verbatim>\<open>Number(s)\<close>, the conversion of a
    number inside a template literal, and \<^verbatim>\<open>s.trim()\<close>.
  \<^item> \<open>killEmulator\<close> is what \<^verbatim>\<open>killEmulator()\<close> does to the machine; it has no error
    result (see \<open>kill\<close> below).
\<close>

record ('w, 'n) env =
  platform :: string
  getInput :: "string \<Rightarrow> bool \<Rightarrow> string + string"
  js_Number :: "string \<Rightarrow> 'n"
  js_String :: "'n \<Rightarrow> string"
  js_trim :: "string \<Rightarrow> string"
  checkApiLevel :: "string \<Rightarrow> string option"
  checkTarget :: "string \<Rightarrow> string option"
  checkArch :: "string \<Rightarrow> string option"
  checkForceAvdCreation :: "string \<Rightarrow> string option"
  checkDisableAnimations :: "string \<Rightarrow> string option"
  checkDisableSpellchecker :: "string \<Rightarrow> string option"
  checkDisableLinuxHardwareAcceleration :: "string \<Rightarrow> string option"
  checkEnableHardwareKeyboard :: "string \<Rightarrow> string option"
  checkEmulatorBuild :: "string \<Rightarrow> string option"
  checkChannel :: "string \<Rightarrow> string option"
  getChannelId :: "string \<Rightarrow> string + 'n"
  parseScript :: "string \<Rightarrow> string + string list"
  installAndroidSdk :: "'n \<Rightarrow> string \<Rightarrow> string \<Rightarrow> 'n \<Rightarrow> string option \<Rightarrow> string option
    \<Rightarrow> string option \<Rightarrow> 'w \<Rightarrow> string option \<times> 'w"
  launchEmulator :: "'n \<Rightarrow> string \<Rightarrow> string \<Rightarrow> string \<Rightarrow> string \<Rightarrow> string \<Rightarrow> string \<Rightarrow> string
    \<Rightarrow> bool \<Rightarrow> string \<Rightarrow> bool \<Rightarrow> bool \<Rightarrow> bool \<Rightarrow> bool \<Rightarrow> 'w \<Rightarrow> string option \<times> 'w"
  chdir :: "string \<Rightarrow> 'w \<Rightarrow> string option \<times> 'w"
  exec :: "string \<Rightarrow> string list \<Rightarrow> 'w \<Rightarrow> string option \<times> 'w"
  killEmulator :: "'w \<Rightarrow> 'w"

subsection \<open>The state of a run, and statements that may throw\<close>

text \<open>
  \<open>trace\<close> is the list of calls made so far, oldest first; \<open>world\<close> is the state of the
  machine; \<open>exitCode\<close> is \<^verbatim>\<open>process.exitCode\<close>, which \<^verbatim>\<open>core.setFailed\<close> sets to 1.
\<close>

record ('w, 'n) state =
  trace :: "'n event list"
  world :: 'w
  exitCode :: nat

type_synonym ('w, 'n, 'a) action = "('w, 'n) state \<Rightarrow> (string + 'a) \<times> ('w, 'n) state"

definition emit :: "'n call \<Rightarrow> outcome \<Rightarrow> ('w, 'n) state \<Rightarrow> ('w, 'n) state" where
  "emit c r s = s\<lparr>trace := trace s @ [(c, r)]\<rparr>"

definition ret :: "'a \<Rightarrow> ('w, 'n, 'a) action" where
  "ret x s = (Inr x, s)"

text \<open>Sequencing: a statement that throws skips the statements after it.\<close>

definition bnd :: "('w, 'n, 'a) action \<Rightarrow> ('a \<Rightarrow> ('w, 'n, 'b) action) \<Rightarrow> ('w, 'n, 'b) action" where
  "bnd m f s = (case m s of (Inl e, s') \<Rightarrow> (Inl e, s') | (Inr x, s') \<Rightarrow> f x s')"

text \<open>\<^verbatim>\<open>try { m } catch (error) { h(error.message) }\<close>\<close>

definition try_catch :: "('w, 'n, 'a) action \<Rightarrow> (string \<Rightarrow> ('w, 'n, 'a) action) \<Rightarrow> ('w, 'n, 'a) action" where
  "try_catch m h s = (case m s of (Inl e, s') \<Rightarrow> h e s' | (Inr x, s') \<Rightarrow> (Inr x, s'))"

text \<open>A call of a function that does not touch the machine.\<close>

definition pure_call :: "'n call \<Rightarrow> string + 'a \<Rightarrow> ('w, 'n, 'a) action" where
  "pure_call c r s =
     (case r of Inl m \<Rightarrow> (Inl m, emit c (Threw m) s) | Inr x \<Rightarrow> (Inr x, emit c Returned s))"

text \<open>A call of one of the \<^verbatim>\<open>check...\<close> functions of the input validator.\<close>

definition validate :: "'n call \<Rightarrow> string option \<Rightarrow> ('w, 'n, unit) action" where
  "validate c r = pure_call c (case r of Some m \<Rightarrow> Inl m | None \<Rightarrow> Inr ())"

text \<open>An awaited call of a function that acts on the machine.\<close>

definition world_call :: "'n call \<Rightarrow> ('w \<Rightarrow> string option \<times> 'w) \<Rightarrow> ('w, 'n, unit) action" where
  "world_call c f s =
     (case f (world s) of
        (Some m, w') \<Rightarrow> (Inl m, emit c (Threw m) (s\<lparr>world := w'\<rparr>))
      | (None, w') \<Rightarrow> (Inr (), emit c Returned (s\<lparr>world := w'\<rparr>)))"

definition console_log :: "string \<Rightarrow> ('w, 'n) state \<Rightarrow> ('w, 'n) state" where
  "console_log m = emit (ConsoleLog m) Returned"

definition log :: "string \<Rightarrow> ('w, 'n, unit) action" where
  "log m s = (Inr (), console_log m s)"

definition warn :: "string \<Rightarrow> ('w, 'n, unit) action" where
  "warn m s = (Inr (), emit (ConsoleWarn m) Returned s)"

text \<open>\<^verbatim>\<open>core.setFailed(message)\<close>: sets the exit code to 1 and reports the message.\<close>

definition setFailed :: "string \<Rightarrow> ('w, 'n, unit) action" where
  "setFailed m s = (Inr (), emit (SetFailed m) Returned (s\<lparr>exitCode := 1\<rparr>))"

text \<open>
  Modelled from the spec: \<^verbatim>\<open>killEmulator\<close> of emulator-manager.ts is not among the sources.
  The spec gives the Terminator the contract \<^verbatim>\<open>terminate(process) -> Unit\<close>, "never fails
  the run", and makes it a no-op when no process is owned. So \<^verbatim>\<open>await killEmulator()\<close>
  changes the state of the machine and always returns.
\<close>

definition kill :: "('w, 'n) env \<Rightarrow> ('w, 'n, unit) action" where
  "kill env s = (Inr (), emit KillEmulator Returned (s\<lparr>world := killEmulator env (world s)\<rparr>))"

text \<open>A boolean inside a template literal.\<close>

definition show_bool :: "bool \<Rightarrow> string" where
  "show_bool b = (if b then ''true'' else ''false'')"

text \<open>\<^verbatim>\<open>!x ? undefined : x\<close> for a string \<^verbatim>\<open>x\<close>: the empty string is the only falsy one.\<close>

definition or_undefined :: "string \<Rightarrow> string option" where
  "or_undefined x = (if x = [] then None else Some x)"

subsection \<open>Async callbacks\<close>

text \<open>
  An async function runs synchronously up to its first \<^verbatim>\<open>await\<close>; what follows an
  \<^verbatim>\<open>await\<close> is resumed later, as a microtask, once the caller itself has reached an
  \<^verbatim>\<open>await\<close>. The body of an async callback is given as the list of its segments, the
  code between two \<^verbatim>\<open>await\<close>s. Calling it without awaiting the promise runs the first
  segment at once and leaves the others pending.
\<close>

type_synonym ('w, 'n) async_body = "(('w, 'n) state \<Rightarrow> ('w, 'n) state) list"

definition call_async ::
  "('w, 'n) async_body \<Rightarrow> ('w, 'n) state \<Rightarrow> ('w, 'n) state \<times> ('w, 'n) async_body list" where
  "call_async body s =
     (case body of
        [] \<Rightarrow> (s, [])
      | seg # rest \<Rightarrow> (seg s, (case rest of [] \<Rightarrow> [] | _ # _ \<Rightarrow> [rest])))"

text \<open>\<^verbatim>\<open>xs.forEach(async (x) => { ... })\<close>: the callback is called on each element in turn.\<close>

fun forEach_async ::
  "('a \<Rightarrow> ('w, 'n) async_body) \<Rightarrow> 'a list \<Rightarrow> ('w, 'n) state
     \<Rightarrow> ('w, 'n) state \<times> ('w, 'n) async_body list" where
  "forEach_async f [] s = (s, [])"
| "forEach_async f (x # xs) s =
     (case call_async (f x) s of
        (s1, p1) \<Rightarrow> (case forEach_async f xs s1 of (s2, p2) \<Rightarrow> (s2, p1 @ p2)))"

text \<open>
  The microtask queue: the first pending body runs its next segment and, when segments
  remain, goes to the back of the queue.
\<close>

function run_microtasks :: "('w, 'n) async_body list \<Rightarrow> ('w, 'n) state \<Rightarrow> ('w, 'n) state" where
  "run_microtasks [] s = s"
| "run_microtasks ([] # q) s = run_microtasks q s"
| "run_microtasks ((seg # rest) # q) s = run_microtasks (q @ [rest]) (seg s)"
  by pat_completeness auto
termination
  by (relation "measure (\<lambda>(q, s). sum_list (map length q) + length q)") auto

text \<open>
  \<^verbatim>\<open>await m\<close> in \<^verbatim>\<open>run()\<close> with microtasks pending: \<^verbatim>\<open>m\<close> is called first, and the
  pending microtasks run before \<^verbatim>\<open>run()\<close> resumes (or its handler is entered).
\<close>

definition await :: "('w, 'n) async_body list \<Rightarrow> ('w, 'n, 'a) action \<Rightarrow> ('w, 'n, 'a) action" where
  "await pending m s = (case m s of (r, s') \<Rightarrow> (r, run_microtasks pending s'))"

subsection \<open>main.ts, lines 22 to 31: the platform guard\<close>

definition check_platform :: "('w, 'n) env \<Rightarrow> ('w, 'n, unit) action" where
  "check_platform env =
     (if platform env \<noteq> ''darwin'' then
        (if platform env = ''linux'' then
           warn ''You're running a Linux VM where hardware acceleration is not available. Please consider using a macOS VM instead to take advantage of native hardware acceleration support provided by HAXM.''
         else (\<lambda>s. (Inl ''Unsupported virtual machine: please use either macos or ubuntu VM.'', s)))
      else ret ())"

subsection \<open>main.ts, lines 33 to 137: the inputs\<close>

text \<open>The constants that lines 33 to 137 bind and that the later calls use.\<close>

record 'n inputs =
  apiLevel :: 'n
  target :: string
  arch :: string
  profile :: string
  cores :: string
  ramSize :: string
  sdcardPathOrSize :: string
  avdName :: string
  forceAvdCreation :: bool
  emulatorOptions :: string
  disableAnimations :: bool
  disableSpellchecker :: bool
  disableLinuxHardwareAcceleration :: bool
  enableHardwareKeyboard :: bool
  emulatorBuild :: "string option"
  workingDirectory :: "string option"
  ndkVersion :: "string option"
  cmakeVersion :: "string option"
  channelId :: 'n

definition read_inputs :: "('w, 'n) env \<Rightarrow> ('w, 'n, 'n inputs) action" where
  "read_inputs env =
    bnd (pure_call (GetInput ''api-level'' True) (getInput env ''api-level'' True)) (\<lambda>apiLevelInput.
    bnd (validate (CheckApiLevel apiLevelInput) (checkApiLevel env apiLevelInput)) (\<lambda>_.
    bnd (log (''API level: '' @ js_String env (js_Number env apiLevelInput))) (\<lambda>_.
    bnd (pure_call (GetInput ''target'' False) (getInput env ''target'' False)) (\<lambda>targetInput.
    bnd (validate
          (CheckTarget (if targetInput = ''playstore'' then ''google_apis_playstore'' else targetInput))
          (checkTarget env (if targetInput = ''playstore'' then ''google_apis_playstore'' else targetInput))) (\<lambda>_.
    bnd (log (''target: '' @ (if targetInput = ''playstore'' then ''google_apis_playstore'' else targetInput))) (\<lambda>_.
    bnd (pure_call (GetInput ''arch'' False) (getInput env ''arch'' False)) (\<lambda>archInput.
    bnd (validate (CheckArch archInput) (checkArch env archInput)) (\<lambda>_.
    bnd (log (''CPU architecture: '' @ archInput)) (\<lambda>_.
    bnd (pure_call (GetInput ''profile'' False) (getInput env ''profile'' False)) (\<lambda>profileInput.
    bnd (log (''Hardware profile: '' @ profileInput)) (\<lambda>_.
    bnd (pure_call (GetInput ''cores'' False) (getInput env ''cores'' False)) (\<lambda>coresInput.
    bnd (log (''Cores: '' @ coresInput)) (\<lambda>_.
    bnd (pure_call (GetInput ''ram-size'' False) (getInput env ''ram-size'' False)) (\<lambda>ramSizeInput.
    bnd (log (''RAM size: '' @ ramSizeInput)) (\<lambda>_.
    bnd (pure_call (GetInput ''sdcard-path-or-size'' False) (getInput env ''sdcard-path-or-size'' False)) (\<lambda>sdcardInput.
    bnd (log (''SD card path or size: '' @ sdcardInput)) (\<lambda>_.
    bnd (pure_call (GetInput ''avd-name'' False) (getInput env ''avd-name'' False)) (\<lambda>avdNameInput.
    bnd (log (''AVD name: '' @ avdNameInput)) (\<lambda>_.
    bnd (pure_call (GetInput ''force-avd-creation'' False) (getInput env ''force-avd-creation'' False)) (\<lambda>forceAvdCreationInput.
    bnd (validate (CheckForceAvdCreation forceAvdCreationInput) (checkForceAvdCreation env forceAvdCreationInput)) (\<lambda>_.
    bnd (log (''force avd creation: '' @ show_bool (forceAvdCreationInput = ''true''))) (\<lambda>_.
    bnd (pure_call (GetInput ''emulator-options'' False) (getInput env ''emulator-options'' False)) (\<lambda>emulatorOptionsInput.
    bnd (log (''emulator options: '' @ js_trim env emulatorOptionsInput)) (\<lambda>_.
    bnd (pure_call (GetInput ''disable-animations'' False) (getInput env ''disable-animations'' False)) (\<lambda>disableAnimationsInput.
    bnd (validate (CheckDisableAnimations disableAnimationsInput) (checkDisableAnimations env disableAnimationsInput)) (\<lambda>_.
    bnd (log (''disable animations: '' @ show_bool (disableAnimationsInput = ''true''))) (\<lambda>_.
    bnd (pure_call (GetInput ''disable-spellchecker'' False) (getInput env ''disable-spellchecker'' False)) (\<lambda>disableSpellcheckerInput.
    bnd (validate (CheckDisableSpellchecker disableSpellcheckerInput) (checkDisableSpellchecker env disableSpellcheckerInput)) (\<lambda>_.
    bnd (log (''disable spellchecker: '' @ show_bool (disableSpellcheckerInput = ''true''))) (\<lambda>_.
    bnd (pure_call (GetInput ''disable-linux-hw-accel'' False) (getInput env ''disable-linux-hw-accel'' False)) (\<lambda>disableLinuxHardwareAccelerationInput.
    bnd (validate (CheckDisableLinuxHardwareAcceleration disableLinuxHardwareAccelerationInput)
          (checkDisableLinuxHardwareAcceleration env disableLinuxHardwareAccelerationInput)) (\<lambda>_.
    bnd (log (''disable Linux hardware acceleration: '' @ show_bool (disableLinuxHardwareAccelerationInput = ''true''))) (\<lambda>_.
    bnd (pure_call (GetInput ''enable-hw-keyboard'' False) (getInput env ''enable-hw-keyboard'' False)) (\<lambda>enableHardwareKeyboardInput.
    bnd (validate (CheckEnableHardwareKeyboard enableHardwareKeyboardInput) (checkEnableHardwareKeyboard env enableHardwareKeyboardInput)) (\<lambda>_.
    bnd (log (''enable hardware keyboard: '' @ show_bool (enableHardwareKeyboardInput = ''true''))) (\<lambda>_.
    bnd (pure_call (GetInput ''emulator-build'' False) (getInput env ''emulator-build'' False)) (\<lambda>emulatorBuildInput.
    bnd (if emulatorBuildInput \<noteq> [] then
           bnd (validate (CheckEmulatorBuild emulatorBuildInput) (checkEmulatorBuild env emulatorBuildInput)) (\<lambda>_.
           log (''using emulator build: '' @ emulatorBuildInput))
         else ret ()) (\<lambda>_.
    bnd (pure_call (GetInput ''working-directory'' False) (getInput env ''working-directory'' False)) (\<lambda>workingDirectoryInput.
    bnd (if workingDirectoryInput \<noteq> [] then log (''custom working directory: '' @ workingDirectoryInput)
         else ret ()) (\<lambda>_.
    bnd (pure_call (GetInput ''ndk'' False) (getInput env ''ndk'' False)) (\<lambda>ndkInput.
    bnd (if ndkInput \<noteq> [] then log (''version of NDK to install: '' @ ndkInput) else ret ()) (\<lambda>_.
    bnd (pure_call (GetInput ''cmake'' False) (getInput env ''cmake'' False)) (\<lambda>cmakeInput.
    bnd (if cmakeInput \<noteq> [] then log (''version of CMake to install: '' @ cmakeInput) else ret ()) (\<lambda>_.
    bnd (pure_call (GetInput ''channel'' False) (getInput env ''channel'' False)) (\<lambda>channelName.
    bnd (validate (CheckChannel channelName) (checkChannel env channelName)) (\<lambda>_.
    bnd (pure_call (GetChannelId channelName) (getChannelId env channelName)) (\<lambda>channelIdValue.
    bnd (log (''Channel: '' @ js_String env channelIdValue @ '' ('' @ channelName @ '')'')) (\<lambda>_.
    ret \<lparr> apiLevel = js_Number env apiLevelInput,
          target = (if targetInput = ''playstore'' then ''google_apis_playstore'' else targetInput),
          arch = archInput,
          profile = profileInput,
          cores = coresInput,
          ramSize = ramSizeInput,
          sdcardPathOrSize = sdcardInput,
          avdName = avdNameInput,
          forceAvdCreation = (forceAvdCreationInput = ''true''),
          emulatorOptions = js_trim env emulatorOptionsInput,
          disableAnimations = (disableAnimationsInput = ''true''),
          disableSpellchecker = (disableSpellcheckerInput = ''true''),
          disableLinuxHardwareAcceleration = (disableLinuxHardwareAccelerationInput = ''true''),
          enableHardwareKeyboard = (enableHardwareKeyboardInput = ''true''),
          emulatorBuild = or_undefined emulatorBuildInput,
          workingDirectory = or_undefined workingDirectoryInput,
          ndkVersion = or_undefined ndkInput,
          cmakeVersion = or_undefined cmakeInput,
          channelId = channelIdValue \<rparr>
    ))))))))))))))))))))))))
      :: ('w, 'n, 'n inputs) action))))))))))))))))))))))))"

subsection \<open>main.ts, lines 139 to 145: the script\<close>

text \<open>
  The callback of line 143 is \<^verbatim>\<open>async (script) => { console.log(`${script}`); }\<close>:
  its body has no \<^verbatim>\<open>await\<close>, so it is a single segment.
\<close>

definition log_script :: "string \<Rightarrow> ('w, 'n) async_body" where
  "log_script script = [console_log script]"

definition read_script ::
  "('w, 'n) env \<Rightarrow> ('w, 'n, string list \<times> ('w, 'n) async_body list) action" where
  "read_script env =
    bnd (pure_call (GetInput ''script'' True) (getInput env ''script'' True)) (\<lambda>scriptInput.
    bnd (pure_call (ParseScript scriptInput) (parseScript env scriptInput)) (\<lambda>scripts.
    bnd (log ''Script:'') (\<lambda>_.
    (\<lambda>s. case forEach_async log_script scripts s of (s', pending) \<Rightarrow> (Inr (scripts, pending), s')))))"

subsection \<open>main.ts, lines 147 to 184: install, launch, script, kill\<close>

definition install_call :: "'n inputs \<Rightarrow> 'n call" where
  "install_call i =
     InstallAndroidSdk (apiLevel i) (target i) (arch i) (channelId i) (emulatorBuild i)
       (ndkVersion i) (cmakeVersion i)"

definition install :: "('w, 'n) env \<Rightarrow> 'n inputs \<Rightarrow> ('w, 'n, unit) action" where
  "install env i =
     world_call (install_call i)
       (installAndroidSdk env (apiLevel i) (target i) (arch i) (channelId i) (emulatorBuild i)
          (ndkVersion i) (cmakeVersion i))"

definition launch_call :: "'n inputs \<Rightarrow> 'n call" where
  "launch_call i =
     LaunchEmulator (apiLevel i) (target i) (arch i) (profile i) (cores i) (ramSize i)
       (sdcardPathOrSize i) (avdName i) (forceAvdCreation i) (emulatorOptions i)
       (disableAnimations i) (disableSpellchecker i) (disableLinuxHardwareAcceleration i)
       (enableHardwareKeyboard i)"

definition launch :: "('w, 'n) env \<Rightarrow> 'n inputs \<Rightarrow> ('w, 'n, unit) action" where
  "launch env i =
     world_call (launch_call i)
       (launchEmulator env (apiLevel i) (target i) (arch i) (profile i) (cores i) (ramSize i)
          (sdcardPathOrSize i) (avdName i) (forceAvdCreation i) (emulatorOptions i)
          (disableAnimations i) (disableSpellchecker i) (disableLinuxHardwareAcceleration i)
          (enableHardwareKeyboard i))"

text \<open>Lines 174 to 178: \<^verbatim>\<open>for (const script of scripts) { await exec.exec('sh', ['-c', script]); }\<close>\<close>

definition sh_c :: "string \<Rightarrow> 'n call" where
  "sh_c script = Exec ''sh'' [''-c'', script]"

fun exec_scripts :: "('w, 'n) env \<Rightarrow> string list \<Rightarrow> ('w, 'n, unit) action" where
  "exec_scripts env [] = ret ()"
| "exec_scripts env (script # rest) =
     bnd (world_call (sh_c script) (exec env ''sh'' [''-c'', script]))
       (\<lambda>_. exec_scripts env rest)"

text \<open>Lines 169 to 181: the inner try/catch.\<close>

definition execute_script ::
  "('w, 'n) env \<Rightarrow> string option \<Rightarrow> string list \<Rightarrow> ('w, 'n, unit) action" where
  "execute_script env workingDir scripts =
     try_catch
       (bnd (case workingDir of
               Some dir \<Rightarrow> world_call (Chdir dir) (chdir env dir)
             | None \<Rightarrow> ret ())
          (\<lambda>_. exec_scripts env scripts))
       (\<lambda>message. setFailed message)"

subsection \<open>main.ts, lines 20 to 190: \<^verbatim>\<open>run()\<close>\<close>

text \<open>The body of the outer try, lines 22 to 184.\<close>

definition run_try :: "('w, 'n) env \<Rightarrow> ('w, 'n, unit) action" where
  "run_try env =
    bnd (check_platform env) (\<lambda>_.
    bnd (read_inputs env) (\<lambda>i.
    bnd (read_script env) (\<lambda>(scripts, pending).
    bnd (await pending (install env i)) (\<lambda>_.
    bnd (launch env i) (\<lambda>_.
    bnd (execute_script env (workingDirectory i) scripts) (\<lambda>_.
    kill env))))))"

text \<open>
  \<^verbatim>\<open>run()\<close> started on a machine in state \<open>w\<close>: the outer handler kills the emulator and
  then reports the message. The result is the state in which \<^verbatim>\<open>run()\<close> ends.
\<close>

definition run :: "('w, 'n) env \<Rightarrow> 'w \<Rightarrow> ('w, 'n) state" where
  "run env w =
     snd (try_catch (run_try env) (\<lambda>message. bnd (kill env) (\<lambda>_. setFailed message))
            \<lparr>trace = [], world = w, exitCode = 0\<rparr>)"

section \<open>Predicates on calls and traces\<close>

text \<open>The ten checks of the input validator.\<close>

fun is_validation :: "'n call \<Rightarrow> bool" where
  "is_validation (CheckApiLevel _) = True"
| "is_validation (CheckTarget _) = True"
| "is_validation (CheckArch _) = True"
| "is_validation (CheckForceAvdCreation _) = True"
| "is_validation (CheckDisableAnimations _) = True"
| "is_validation (CheckDisableSpellchecker _) = True"
| "is_validation (CheckDisableLinuxHardwareAcceleration _) = True"
| "is_validation (CheckEnableHardwareKeyboard _) = True"
| "is_validation (CheckEmulatorBuild _) = True"
| "is_validation (CheckChannel _) = True"
| "is_validation _ = False"

text \<open>
  The calls that touch the disk or the device before the emulator is killed: the SDK
  installer, the launch of the emulator, and the script stage (\<^verbatim>\<open>process.chdir\<close> and
  \<^verbatim>\<open>exec.exec\<close>).
\<close>

fun side_effecting :: "'n call \<Rightarrow> bool" where
  "side_effecting (InstallAndroidSdk _ _ _ _ _ _ _) = True"
| "side_effecting (LaunchEmulator _ _ _ _ _ _ _ _ _ _ _ _ _ _) = True"
| "side_effecting (Chdir _) = True"
| "side_effecting (Exec _ _) = True"
| "side_effecting _ = False"

fun is_install :: "'n call \<Rightarrow> bool" where
  "is_install (InstallAndroidSdk _ _ _ _ _ _ _) = True"
| "is_install _ = False"

fun is_launch :: "'n call \<Rightarrow> bool" where
  "is_launch (LaunchEmulator _ _ _ _ _ _ _ _ _ _ _ _ _ _) = True"
| "is_launch _ = False"

fun is_exec :: "'n call \<Rightarrow> bool" where
  "is_exec (Exec _ _) = True"
| "is_exec _ = False"

fun is_setFailed :: "'n call \<Rightarrow> bool" where
  "is_setFailed (SetFailed _) = True"
| "is_setFailed _ = False"

text \<open>The calls made while the inputs are read: everything up to line 145.\<close>

fun input_call :: "'n call \<Rightarrow> bool" where
  "input_call (InstallAndroidSdk _ _ _ _ _ _ _) = False"
| "input_call (LaunchEmulator _ _ _ _ _ _ _ _ _ _ _ _ _ _) = False"
| "input_call (Chdir _) = False"
| "input_call (Exec _ _) = False"
| "input_call KillEmulator = False"
| "input_call (SetFailed _) = False"
| "input_call _ = True"

text \<open>
  A call of \<^verbatim>\<open>checkTarget\<close> is canonical when its argument is the \<^verbatim>\<open>target\<close> input with
  \<^verbatim>\<open>playstore\<close> replaced by \<^verbatim>\<open>google_apis_playstore\<close>.
\<close>

fun target_canonical :: "('w, 'n) env \<Rightarrow> 'n call \<Rightarrow> bool" where
  "target_canonical env (CheckTarget a) =
     (case getInput env ''target'' False of
        Inl _ \<Rightarrow> False
      | Inr t \<Rightarrow> a = (if t = ''playstore'' then ''google_apis_playstore'' else t))"
| "target_canonical env _ = True"

fun is_parse :: "'n call \<Rightarrow> bool" where
  "is_parse (ParseScript _) = True"
| "is_parse _ = False"

text \<open>
  The calls of lines 22 to 145 (\<open>prelude_phase\<close>) and, among them, those made before the
  script is parsed (\<open>input_phase\<close>), the target always canonical.
\<close>

definition prelude_phase :: "('w, 'n) env \<Rightarrow> 'n call \<Rightarrow> bool" where
  "prelude_phase env c = (input_call c \<and> target_canonical env c)"

definition input_phase :: "('w, 'n) env \<Rightarrow> 'n call \<Rightarrow> bool" where
  "input_phase env c = (prelude_phase env c \<and> \<not> is_parse c)"

text \<open>Events that are all calls of kind \<open>P\<close> and all returned.\<close>

definition quiet :: "('n call \<Rightarrow> bool) \<Rightarrow> 'n event list \<Rightarrow> bool" where
  "quiet P evs = list_all (\<lambda>e. P (fst e) \<and> snd e = Returned) evs"

text \<open>
  A statement tracks \<open>P\<close> when it only appends to the trace, makes calls of kind \<open>P\<close>
  only, and throws exactly when its last call threw, with that call's message.
\<close>

definition tracks :: "('n call \<Rightarrow> bool) \<Rightarrow> ('w, 'n, 'a) action \<Rightarrow> bool" where
  "tracks P m =
     (\<forall>s. \<exists>evs. snd (m s) = s\<lparr>trace := trace s @ evs\<rparr> \<and>
        (case fst (m s) of
           Inr x \<Rightarrow> quiet P evs
         | Inl e \<Rightarrow> \<exists>pre c. evs = pre @ [(c, Threw e)] \<and> P c \<and> quiet P pre))"

text \<open>
  The input \<open>name\<close> was read and the check \<open>chk\<close> was called on it and returned.
\<close>

definition checked ::
  "('w, 'n) env \<Rightarrow> string \<Rightarrow> bool \<Rightarrow> (string \<Rightarrow> 'n call) \<Rightarrow> 'n event list \<Rightarrow> bool" where
  "checked env name required chk evs =
     (case getInput env name required of
        Inl _ \<Rightarrow> False
      | Inr v \<Rightarrow> (chk v, Returned) \<in> set evs)"

text \<open>
  Every check that the code makes has been made and has returned; \<^verbatim>\<open>checkEmulatorBuild\<close>
  is made only for a non-empty \<^verbatim>\<open>emulator-build\<close> input (line 106).
\<close>

definition all_checks_passed :: "('w, 'n) env \<Rightarrow> 'n event list \<Rightarrow> bool" where
  "all_checks_passed env evs =
     (checked env ''api-level'' True CheckApiLevel evs \<and>
      checked env ''target'' False
        (\<lambda>t. CheckTarget (if t = ''playstore'' then ''google_apis_playstore'' else t)) evs \<and>
      checked env ''arch'' False CheckArch evs \<and>
      checked env ''force-avd-creation'' False CheckForceAvdCreation evs \<and>
      checked env ''disable-animations'' False CheckDisableAnimations evs \<and>
      checked env ''disable-spellchecker'' False CheckDisableSpellchecker evs \<and>
      checked env ''disable-linux-hw-accel'' False CheckDisableLinuxHardwareAcceleration evs \<and>
      checked env ''enable-hw-keyboard'' False CheckEnableHardwareKeyboard evs \<and>
      (case getInput env ''emulator-build'' False of
         Inl _ \<Rightarrow> False
       | Inr v \<Rightarrow> v = [] \<or> (CheckEmulatorBuild v, Returned) \<in> set evs) \<and>
      checked env ''channel'' False CheckChannel evs)"

text \<open>The trace of line 172: nothing without a working directory.\<close>

definition chdir_events :: "string option \<Rightarrow> 'n event list" where
  "chdir_events workingDir = (case workingDir of None \<Rightarrow> [] | Some dir \<Rightarrow> [(Chdir dir, Returned)])"

text \<open>The lines that the callback of line 143 logs for the parsed script.\<close>

definition script_log :: "string list \<Rightarrow> 'n event list" where
  "script_log scripts = map (\<lambda>script. (ConsoleLog script, Returned)) scripts"

text \<open>
  \<open>pre\<close> is the trace of a run whose lines 22 to 145 have all returned, with \<open>scripts\<close>
  the parsed script.
\<close>

definition inputs_read :: "('w, 'n) env \<Rightarrow> 'n event list \<Rightarrow> string list \<Rightarrow> bool" where
  "inputs_read env pre scripts =
     (all_checks_passed env pre \<and>
      (case getInput env ''script'' True of
         Inl _ \<Rightarrow> False
       | Inr src \<Rightarrow>
           parseScript env src = Inr scripts \<and>
           (\<exists>before. quiet (input_phase env) before \<and>
              pre = before @
                [(ParseScript src, Returned), (ConsoleLog ''Script:'', Returned)] @
                script_log scripts)))"

text \<open>What holds of the result and the state whenever a statement returns.\<close>

definition on_return ::
  "('w, 'n, 'a) action \<Rightarrow> ('a \<Rightarrow> ('w, 'n) state \<Rightarrow> bool) \<Rightarrow> ('w, 'n) state \<Rightarrow> bool" where
  "on_return m Q s = (case m s of (Inr x, s') \<Rightarrow> Q x s' | (Inl e, s') \<Rightarrow> True)"

section \<open>A concrete run\<close>

text \<open>
  A macOS machine whose state counts the calls made on it. The inputs are those of a
  workflow that sets \<^verbatim>\<open>api-level: 29\<close>, \<^verbatim>\<open>target: playstore\<close> and a script of three
  lines, the second of which exits with a non-zero status.
\<close>

definition demo_inputs :: "string \<Rightarrow> string" where
  "demo_inputs name =
     (if name = ''api-level'' then ''29''
      else if name = ''target'' then ''playstore''
      else if name = ''script'' then ''echo a; false; echo b''
      else [])"

definition demo :: "(nat, nat) env" where
  "demo =
     \<lparr> platform = ''darwin'',
       getInput = (\<lambda>name required. Inr (demo_inputs name)),
       js_Number = (\<lambda>s. 29),
       js_String = (\<lambda>n. if n = 29 then ''29'' else ''0''),
       js_trim = (\<lambda>s. s),
       checkApiLevel = (\<lambda>s. None),
       checkTarget = (\<lambda>s. None),
       checkArch = (\<lambda>s. None),
       checkForceAvdCreation = (\<lambda>s. None),
       checkDisableAnimations = (\<lambda>s. None),
       checkDisableSpellchecker = (\<lambda>s. None),
       checkDisableLinuxHardwareAcceleration = (\<lambda>s. None),
       checkEnableHardwareKeyboard = (\<lambda>s. None),
       checkEmulatorBuild = (\<lambda>s. None),
       checkChannel = (\<lambda>s. None),
       getChannelId = (\<lambda>s. Inr 0),
       parseScript = (\<lambda>s. Inr [''echo a'', ''false'', ''echo b'']),
       installAndroidSdk = (\<lambda>_ _ _ _ _ _ _ w. (None, Suc w)),
       launchEmulator = (\<lambda>_ _ _ _ _ _ _ _ _ _ _ _ _ _ w. (None, Suc w)),
       chdir = (\<lambda>dir w. (None, Suc w)),
       exec = (\<lambda>cmd args w. (if args = [''-c'', ''false''] then Some ''exit code 1'' else None, Suc w)),
       killEmulator = (\<lambda>w. Suc w) \<rparr>"

text \<open>The same machine with an \<^verbatim>\<open>api-level\<close> that the validator rejects.\<close>

definition demo_invalid :: "(nat, nat) env" where
  "demo_invalid = demo\<lparr>checkApiLevel := (\<lambda>s. Some ''Unexpected API level'')\<rparr>"

text \<open>The same inputs on a Windows machine.\<close>

definition demo_windows :: "(nat, nat) env" where
  "demo_windows = demo\<lparr>platform := ''win32''\<rparr>"

section \<open>Properties of a run\<close>

subsection \<open>How statements extend the trace\<close>

lemma quiet_Nil [simp]: "quiet P []"
  by (simp add: quiet_def)

lemma quiet_append [simp]: "quiet P (xs @ ys) = (quiet P xs \<and> quiet P ys)"
  by (simp add: quiet_def)

lemma quiet_Cons [simp]: "quiet P ((c, r) # evs) = (P c \<and> r = Returned \<and> quiet P evs)"
  by (simp add: quiet_def)

lemma tracks_ret: "tracks P (ret x)"
  unfolding tracks_def ret_def by (intro allI exI [of _ "[]"]) simp

lemma tracks_log: "P (ConsoleLog m) \<Longrightarrow> tracks P (log m)"
  unfolding tracks_def log_def console_log_def emit_def
  by (intro allI exI [of _ "[(ConsoleLog m, Returned)]"]) simp

lemma tracks_pure_call:
  assumes "P c"
  shows "tracks P (pure_call c r)"
proof (cases r)
  case (Inl m)
  with assms show ?thesis
    unfolding tracks_def pure_call_def emit_def
    by (intro allI exI [of _ "[(c, Threw m)]"]) simp
next
  case (Inr x)
  with assms show ?thesis
    unfolding tracks_def pure_call_def emit_def
    by (intro allI exI [of _ "[(c, Returned)]"]) simp
qed

lemma tracks_bnd:
  assumes m: "tracks P m" and f: "\<And>x s s'. m s = (Inr x, s') \<Longrightarrow> tracks P (f x)"
  shows "tracks P (bnd m f)"
  unfolding tracks_def
proof (intro allI)
  fix s
  from m obtain evs where
    s1: "snd (m s) = s\<lparr>trace := trace s @ evs\<rparr>" and
    r1: "case fst (m s) of Inr x \<Rightarrow> quiet P evs
         | Inl e \<Rightarrow> \<exists>pre c. evs = pre @ [(c, Threw e)] \<and> P c \<and> quiet P pre"
    unfolding tracks_def by blast
  show "\<exists>evs. snd (bnd m f s) = s\<lparr>trace := trace s @ evs\<rparr> \<and>
        (case fst (bnd m f s) of Inr x \<Rightarrow> quiet P evs
         | Inl e \<Rightarrow> \<exists>pre c. evs = pre @ [(c, Threw e)] \<and> P c \<and> quiet P pre)"
  proof (cases "fst (m s)")
    case (Inl e)
    then have "bnd m f s = (Inl e, snd (m s))"
      by (cases "m s") (simp add: bnd_def)
    with s1 r1 Inl show ?thesis by (intro exI [of _ evs]) simp
  next
    case (Inr x)
    then have b: "bnd m f s = f x (snd (m s))"
      by (cases "m s") (simp add: bnd_def)
    from Inr have "m s = (Inr x, snd (m s))" by (cases "m s") simp
    from f [OF this] obtain evs2 where
      s2: "snd (f x (snd (m s))) = (snd (m s))\<lparr>trace := trace (snd (m s)) @ evs2\<rparr>" and
      r2: "case fst (f x (snd (m s))) of Inr y \<Rightarrow> quiet P evs2
           | Inl e \<Rightarrow> \<exists>pre c. evs2 = pre @ [(c, Threw e)] \<and> P c \<and> quiet P pre"
      unfolding tracks_def by blast
    from r1 Inr have q1: "quiet P evs" by simp
    show ?thesis
    proof (intro exI [of _ "evs @ evs2"] conjI)
      show "snd (bnd m f s) = s\<lparr>trace := trace s @ evs @ evs2\<rparr>"
        using b s1 s2 by simp
      show "case fst (bnd m f s) of Inr x \<Rightarrow> quiet P (evs @ evs2)
         | Inl e \<Rightarrow> \<exists>pre c. evs @ evs2 = pre @ [(c, Threw e)] \<and> P c \<and> quiet P pre"
      proof (cases "fst (f x (snd (m s)))")
        case (Inl e)
        with r2 obtain pre c where "evs2 = pre @ [(c, Threw e)]" "P c" "quiet P pre" by auto
        with q1 have "evs @ evs2 = (evs @ pre) @ [(c, Threw e)] \<and> P c \<and> quiet P (evs @ pre)"
          by simp
        with Inl b show ?thesis by (simp del: append_assoc)
      next
        case (Inr y)
        with r2 q1 b show ?thesis by simp
      qed
    qed
  qed
qed

lemma tracks_validate: "P c \<Longrightarrow> tracks P (validate c r)"
  by (simp add: validate_def tracks_pure_call)

lemma tracks_if: "tracks P a \<Longrightarrow> tracks P b \<Longrightarrow> tracks P (if c then a else b)"
  by simp


lemma pure_call_okD: "pure_call c r s = (Inr x, s1) \<Longrightarrow> r = Inr x \<and> s1 = emit c Returned s"
  by (cases r) (simp_all add: pure_call_def)

lemma tracks_bnd_pure:
  assumes "P c" and "\<And>x. r = Inr x \<Longrightarrow> tracks P (f x)"
  shows "tracks P (bnd (pure_call c r) f)"
  using assms by (intro tracks_bnd tracks_pure_call) (auto dest!: pure_call_okD)

lemma tracks_bnd_plain:
  assumes "tracks P m" and "\<And>x. tracks P (f x)"
  shows "tracks P (bnd m f)"
  using assms by (intro tracks_bnd)

lemma tracks_read_inputs: "tracks (input_phase env) (read_inputs env)"
  unfolding read_inputs_def
  apply (intro tracks_bnd_pure tracks_bnd_plain tracks_if tracks_validate tracks_log tracks_ret)
  apply (simp_all add: input_phase_def prelude_phase_def)
  done

lemma forEach_log_script:
  "forEach_async log_script scripts s =
     (s\<lparr>trace := trace s @ map (\<lambda>c. (ConsoleLog c, Returned)) scripts\<rparr>, [])"
  by (induction scripts arbitrary: s)
     (simp_all add: call_async_def log_script_def console_log_def emit_def)

text \<open>
  Had the callback awaited anything before it logs, \<^verbatim>\<open>forEach\<close> would log nothing and
  leave every line pending: the lines are logged in order, before \<^verbatim>\<open>run()\<close> goes on,
  because the body has no \<^verbatim>\<open>await\<close>.
\<close>

lemma forEach_awaiting_callback:
  "forEach_async (\<lambda>script. [\<lambda>s. s, console_log script]) scripts s =
     (s, map (\<lambda>script. [console_log script]) scripts)"
  by (induction scripts arbitrary: s) (simp_all add: call_async_def)

lemma read_script_result:
  "read_script env s =
     (case getInput env ''script'' True of
        Inl m \<Rightarrow> (Inl m, s\<lparr>trace := trace s @ [(GetInput ''script'' True, Threw m)]\<rparr>)
      | Inr src \<Rightarrow>
          (case parseScript env src of
             Inl m \<Rightarrow> (Inl m, s\<lparr>trace := trace s @
                 [(GetInput ''script'' True, Returned), (ParseScript src, Threw m)]\<rparr>)
           | Inr scripts \<Rightarrow> (Inr (scripts, []), s\<lparr>trace := trace s @
                 [(GetInput ''script'' True, Returned), (ParseScript src, Returned),
                  (ConsoleLog ''Script:'', Returned)] @
                 map (\<lambda>c. (ConsoleLog c, Returned)) scripts\<rparr>)))"
  by (simp add: read_script_def bnd_def pure_call_def log_def console_log_def emit_def
        forEach_log_script split: sum.splits)

lemma exec_scripts_shape:
  "exec_scripts env scripts s = (r, s') \<Longrightarrow>
     exitCode s' = exitCode s \<and>
     ((r = Inr () \<and> trace s' = trace s @ map (\<lambda>c. (sh_c c, Returned)) scripts) \<or>
      (\<exists>k m. k < length scripts \<and> r = Inl m \<and>
         trace s' = trace s @ map (\<lambda>c. (sh_c c, Returned)) (take k scripts) @
           [(sh_c (scripts ! k), Threw m)]))"
proof (induction scripts arbitrary: s)
  case Nil
  then show ?case by (auto simp: ret_def)
next
  case (Cons c cs)
  obtain o1 w1 where e: "exec env ''sh'' [''-c'', c] (world s) = (o1, w1)"
    by (cases "exec env ''sh'' [''-c'', c] (world s)")
  show ?case
  proof (cases o1)
    case (Some m)
    with Cons.prems e have "r = Inl m" "s' = emit (sh_c c) (Threw m) (s\<lparr>world := w1\<rparr>)"
      by (auto simp: bnd_def world_call_def)
    then have "exitCode s' = exitCode s \<and> 0 < length (c # cs) \<and> r = Inl m \<and>
         trace s' = trace s @ map (\<lambda>c. (sh_c c, Returned)) (take 0 (c # cs)) @
           [(sh_c ((c # cs) ! 0), Threw m)]"
      by (simp add: emit_def)
    then show ?thesis by blast
  next
    case None
    let ?s1 = "emit (sh_c c) Returned (s\<lparr>world := w1\<rparr>)"
    from None Cons.prems e have "exec_scripts env cs ?s1 = (r, s')"
      by (auto simp: bnd_def world_call_def)
    from Cons.IH [OF this] have
      x: "exitCode s' = exitCode ?s1" and
      d: "(r = Inr () \<and> trace s' = trace ?s1 @ map (\<lambda>c. (sh_c c, Returned)) cs) \<or>
          (\<exists>k m. k < length cs \<and> r = Inl m \<and>
             trace s' = trace ?s1 @ map (\<lambda>c. (sh_c c, Returned)) (take k cs) @
               [(sh_c (cs ! k), Threw m)])"
      by blast+
    from d show ?thesis
    proof
      assume "r = Inr () \<and> trace s' = trace ?s1 @ map (\<lambda>c. (sh_c c, Returned)) cs"
      with x show ?thesis by (simp add: emit_def)
    next
      assume "\<exists>k m. k < length cs \<and> r = Inl m \<and>
             trace s' = trace ?s1 @ map (\<lambda>c. (sh_c c, Returned)) (take k cs) @
               [(sh_c (cs ! k), Threw m)]"
      then obtain k m where "k < length cs" "r = Inl m"
        "trace s' = trace ?s1 @ map (\<lambda>c. (sh_c c, Returned)) (take k cs) @
               [(sh_c (cs ! k), Threw m)]" by blast
      then show ?thesis using x
        by (intro conjI disjI2 exI [of _ "Suc k"] exI [of _ m]) (simp_all add: emit_def)
    qed
  qed
qed

lemma bnd_Inl: "m s = (Inl e, s1) \<Longrightarrow> bnd m f s = (Inl e, s1)"
  by (simp add: bnd_def)

lemma bnd_Inr: "m s = (Inr x, s1) \<Longrightarrow> bnd m f s = f x s1"
  by (simp add: bnd_def)

lemma await_Nil: "await [] m = m"
  by (rule ext) (simp add: await_def split: prod.splits)

lemma world_call_cases:
  obtains (threw) m w' where "world_call c f s = (Inl m, s\<lparr>world := w', trace := trace s @ [(c, Threw m)]\<rparr>)"
  | (returned) w' where "world_call c f s = (Inr (), s\<lparr>world := w', trace := trace s @ [(c, Returned)]\<rparr>)"
proof (cases "f (world s)")
  case (Pair r w')
  show ?thesis
  proof (cases r)
    case None
    with Pair have "world_call c f s = (Inr (), s\<lparr>world := w', trace := trace s @ [(c, Returned)]\<rparr>)"
      by (simp add: world_call_def emit_def)
    then show ?thesis by (rule returned)
  next
    case (Some m)
    with Pair have "world_call c f s = (Inl m, s\<lparr>world := w', trace := trace s @ [(c, Threw m)]\<rparr>)"
      by (simp add: world_call_def emit_def)
    then show ?thesis by (rule threw)
  qed
qed

lemma execute_script_shape:
  assumes "execute_script env wd scripts s = (r, s')"
  shows "r = Inr () \<and>
    ((\<exists>d m. wd = Some d \<and> exitCode s' = 1 \<and>
        trace s' = trace s @ [(Chdir d, Threw m), (SetFailed m, Returned)]) \<or>
     (exitCode s' = exitCode s \<and>
        trace s' = trace s @ chdir_events wd @ map (\<lambda>c. (sh_c c, Returned)) scripts) \<or>
     (\<exists>k m. k < length scripts \<and> exitCode s' = 1 \<and>
        trace s' = trace s @ chdir_events wd @ map (\<lambda>c. (sh_c c, Returned)) (take k scripts) @
          [(sh_c (scripts ! k), Threw m), (SetFailed m, Returned)]))"
proof -
  let ?cd = "case wd of Some dir \<Rightarrow> world_call (Chdir dir) (chdir env dir) | None \<Rightarrow> ret ()"
  have cd: "(\<exists>d m s1. wd = Some d \<and> ?cd s = (Inl m, s1) \<and> exitCode s1 = exitCode s \<and>
                trace s1 = trace s @ [(Chdir d, Threw m)]) \<or>
            (\<exists>s1. ?cd s = (Inr (), s1) \<and> exitCode s1 = exitCode s \<and>
                trace s1 = trace s @ chdir_events wd)"
  proof (cases wd)
    case None
    then show ?thesis by (simp add: ret_def chdir_events_def)
  next
    case (Some d)
    show ?thesis
    proof (cases rule: world_call_cases [of "Chdir d" "chdir env d" s])
      case (threw m w')
      with Some show ?thesis by simp
    next
      case (returned w')
      with Some show ?thesis by (simp add: chdir_events_def)
    qed
  qed
  from cd show ?thesis
  proof
    assume "\<exists>d m s1. wd = Some d \<and> ?cd s = (Inl m, s1) \<and> exitCode s1 = exitCode s \<and>
                trace s1 = trace s @ [(Chdir d, Threw m)]"
    then obtain d m s1 where wd: "wd = Some d" and c: "?cd s = (Inl m, s1)"
      and t: "trace s1 = trace s @ [(Chdir d, Threw m)]" by blast
    from c have "execute_script env wd scripts s = setFailed m s1"
      by (simp add: execute_script_def try_catch_def bnd_Inl)
    with assms t wd show ?thesis
      by (auto simp: setFailed_def emit_def)
  next
    assume "\<exists>s1. ?cd s = (Inr (), s1) \<and> exitCode s1 = exitCode s \<and>
                trace s1 = trace s @ chdir_events wd"
    then obtain s1 where c: "?cd s = (Inr (), s1)" and x1: "exitCode s1 = exitCode s"
      and t1: "trace s1 = trace s @ chdir_events wd" by blast
    obtain r2 s2 where e: "exec_scripts env scripts s1 = (r2, s2)"
      by (cases "exec_scripts env scripts s1")
    from c e have es: "execute_script env wd scripts s =
        (case r2 of Inl m \<Rightarrow> setFailed m s2 | Inr x \<Rightarrow> (Inr x, s2))"
      by (simp add: execute_script_def try_catch_def bnd_Inr)
    from exec_scripts_shape [OF e] have x2: "exitCode s2 = exitCode s1" and
      d: "(r2 = Inr () \<and> trace s2 = trace s1 @ map (\<lambda>c. (sh_c c, Returned)) scripts) \<or>
          (\<exists>k m. k < length scripts \<and> r2 = Inl m \<and>
             trace s2 = trace s1 @ map (\<lambda>c. (sh_c c, Returned)) (take k scripts) @
               [(sh_c (scripts ! k), Threw m)])"
      by blast+
    from d show ?thesis
    proof
      assume "r2 = Inr () \<and> trace s2 = trace s1 @ map (\<lambda>c. (sh_c c, Returned)) scripts"
      with es assms x1 x2 t1 show ?thesis by simp
    next
      assume "\<exists>k m. k < length scripts \<and> r2 = Inl m \<and>
             trace s2 = trace s1 @ map (\<lambda>c. (sh_c c, Returned)) (take k scripts) @
               [(sh_c (scripts ! k), Threw m)]"
      then obtain k m where k: "k < length scripts" and r2: "r2 = Inl m" and
        t2: "trace s2 = trace s1 @ map (\<lambda>c. (sh_c c, Returned)) (take k scripts) @
               [(sh_c (scripts ! k), Threw m)]" by blast
      from es r2 assms have "r = Inr ()" "s' = emit (SetFailed m) Returned (s2\<lparr>exitCode := 1\<rparr>)"
        by (simp_all add: setFailed_def)
      with t1 t2 k have "r = Inr () \<and> k < length scripts \<and> exitCode s' = 1 \<and>
        trace s' = trace s @ chdir_events wd @ map (\<lambda>c. (sh_c c, Returned)) (take k scripts) @
          [(sh_c (scripts ! k), Threw m), (SetFailed m, Returned)]"
        by (simp add: emit_def)
      then show ?thesis by blast
    qed
  qed
qed

subsection \<open>What the inputs guarantee once they are read\<close>

lemma on_return_bnd: "on_return (bnd m f) Q s = on_return m (\<lambda>x. on_return (f x) Q) s"
  by (simp add: on_return_def bnd_def split: prod.splits sum.splits)

lemma on_return_pure_call:
  "on_return (pure_call c r) Q s = (\<forall>x. r = Inr x \<longrightarrow> Q x (emit c Returned s))"
  by (cases r) (simp_all add: on_return_def pure_call_def)

lemma on_return_validate:
  "on_return (validate c r) Q s = (r = None \<longrightarrow> Q () (emit c Returned s))"
  by (cases r) (simp_all add: on_return_def validate_def pure_call_def)

lemma on_return_log: "on_return (log m) Q s = Q () (emit (ConsoleLog m) Returned s)"
  by (simp add: on_return_def log_def console_log_def)

lemma on_return_ret: "on_return (ret v) Q s = Q v s"
  by (simp add: on_return_def ret_def)

lemma on_return_if_log:
  "on_return (if b then log m else ret ()) Q s =
     Q () (if b then emit (ConsoleLog m) Returned s else s)"
  by (simp add: on_return_log on_return_ret)

lemma on_return_if_validate:
  "on_return (if b then bnd (validate c r) (\<lambda>_. log m) else ret ()) Q s =
     ((b \<longrightarrow> r = None) \<longrightarrow>
        Q () (if b then emit (ConsoleLog m) Returned (emit c Returned s) else s))"
  by (simp add: on_return_bnd on_return_validate on_return_log on_return_ret)

lemma emit_trace: "trace (emit c r s) = trace s @ [(c, r)]"
  by (simp add: emit_def)

lemma if_emit_trace:
  "trace (if b then emit c r s else s) = trace s @ (if b then [(c, r)] else [])"
  by (simp add: emit_def)

lemma if_emit2_trace:
  "trace (if b then emit c r (emit c' r' s) else s) =
     trace s @ (if b then [(c', r'), (c, r)] else [])"
  by (simp add: emit_def)

lemma in_set_if: "x \<in> set (if b then xs else []) \<longleftrightarrow> b \<and> x \<in> set xs"
  by simp

lemma read_inputs_on_return:
  "on_return (read_inputs env) (\<lambda>i s'. all_checks_passed env (trace s')) s"
  unfolding read_inputs_def
  apply (simp add: on_return_bnd on_return_pure_call on_return_validate on_return_log
      on_return_ret on_return_if_log on_return_if_validate emit_trace if_emit_trace
      if_emit2_trace in_set_if all_checks_passed_def checked_def
      split del: if_split)
  apply blast
  done

lemma read_inputs_ok:
  assumes "read_inputs env s = (Inr i, s')"
  shows "all_checks_passed env (trace s')"
  using read_inputs_on_return [of env s] assms by (simp add: on_return_def)

subsection \<open>The guard, the handlers and the checks\<close>

lemma checked_mono: "checked env name required chk xs \<Longrightarrow> checked env name required chk (xs @ ys)"
  by (auto simp: checked_def split: sum.splits)

lemma all_checks_passed_mono:
  "all_checks_passed env xs \<Longrightarrow> all_checks_passed env (xs @ ys)"
  unfolding all_checks_passed_def
  by (auto intro: checked_mono split: sum.splits)

lemma quiet_script_log: "quiet (prelude_phase env) (script_log scripts)"
  by (induction scripts) (simp_all add: script_log_def quiet_def prelude_phase_def)

lemma check_platform_cases:
  obtains (unsupported) "platform env \<noteq> ''darwin''" "platform env \<noteq> ''linux''"
      "check_platform env s =
         (Inl ''Unsupported virtual machine: please use either macos or ubuntu VM.'', s)"
  | (supported) hd where "check_platform env s = (Inr (), s\<lparr>trace := trace s @ hd\<rparr>)"
      "quiet (input_phase env) hd"
proof (cases "platform env = ''darwin''")
  case True
  then have "check_platform env s = (Inr (), s\<lparr>trace := trace s @ []\<rparr>)"
    by (simp add: check_platform_def ret_def)
  then show ?thesis by (rule supported) simp
next
  case False
  show ?thesis
  proof (cases "platform env = ''linux''")
    case True
    with False have "check_platform env s = (Inr (), s\<lparr>trace := trace s @ [(ConsoleWarn ''You're running a Linux VM where hardware acceleration is not available. Please consider using a macOS VM instead to take advantage of native hardware acceleration support provided by HAXM.'', Returned)]\<rparr>)"
      by (simp add: check_platform_def warn_def emit_def)
    then show ?thesis by (rule supported) (simp add: input_phase_def prelude_phase_def)
  next
    case l: False
    with False have "check_platform env s =
         (Inl ''Unsupported virtual machine: please use either macos or ubuntu VM.'', s)"
      by (simp add: check_platform_def)
    with False l show ?thesis by (rule unsupported)
  qed
qed

lemma run_threw:
  assumes "run_try env \<lparr>trace = [], world = w, exitCode = 0\<rparr> = (Inl m, s)"
  shows "trace (run env w) = trace s @ [(KillEmulator, Returned), (SetFailed m, Returned)]"
    and "exitCode (run env w) = 1"
  using assms by (simp_all add: run_def try_catch_def bnd_def kill_def setFailed_def emit_def)

lemma run_returned:
  assumes "run_try env \<lparr>trace = [], world = w, exitCode = 0\<rparr> = (Inr u, s)"
  shows "run env w = s"
  using assms by (simp add: run_def try_catch_def)

lemma tracksD [consumes 1, case_names threw returned]:
  assumes "tracks P m"
  obtains (threw) e pre c where "m s = (Inl e, s\<lparr>trace := trace s @ pre @ [(c, Threw e)]\<rparr>)"
      "P c" "quiet P pre"
  | (returned) x evs where "m s = (Inr x, s\<lparr>trace := trace s @ evs\<rparr>)" "quiet P evs"
proof -
  from assms obtain evs where
    s1: "snd (m s) = s\<lparr>trace := trace s @ evs\<rparr>" and
    r1: "case fst (m s) of Inr x \<Rightarrow> quiet P evs
         | Inl e \<Rightarrow> \<exists>pre c. evs = pre @ [(c, Threw e)] \<and> P c \<and> quiet P pre"
    unfolding tracks_def by blast
  show ?thesis
  proof (cases "fst (m s)")
    case (Inl e)
    with r1 obtain pre c where "evs = pre @ [(c, Threw e)]" "P c" "quiet P pre" by auto
    moreover from Inl s1 have "m s = (Inl e, s\<lparr>trace := trace s @ evs\<rparr>)"
      by (cases "m s") simp
    ultimately show ?thesis by (intro threw [of e pre c]) simp_all
  next
    case (Inr x)
    with r1 have "quiet P evs" by simp
    moreover from Inr s1 have "m s = (Inr x, s\<lparr>trace := trace s @ evs\<rparr>)"
      by (cases "m s") simp
    ultimately show ?thesis by (rule returned [rotated])
  qed
qed

subsection \<open>The seven ways a run can go\<close>

lemma run_cases:
  fixes env :: "('w, 'n) env" and w :: 'w
  obtains
    (unsupported) "platform env \<noteq> ''darwin''" "platform env \<noteq> ''linux''"
      "trace (run env w) = [(KillEmulator, Returned),
         (SetFailed ''Unsupported virtual machine: please use either macos or ubuntu VM.'', Returned)]"
      "exitCode (run env w) = 1"
  | (input_failed) pre c m where "quiet (input_phase env) pre" "prelude_phase env c"
      "trace (run env w) = pre @ [(c, Threw m), (KillEmulator, Returned), (SetFailed m, Returned)]"
      "exitCode (run env w) = 1"
  | (install_failed) pre scripts i m where "inputs_read env pre scripts"
      "trace (run env w) = pre @
         [(install_call i, Threw m), (KillEmulator, Returned), (SetFailed m, Returned)]"
      "exitCode (run env w) = 1"
  | (launch_failed) pre scripts i m where "inputs_read env pre scripts"
      "trace (run env w) = pre @
         [(install_call i, Returned), (launch_call i, Threw m), (KillEmulator, Returned),
          (SetFailed m, Returned)]"
      "exitCode (run env w) = 1"
  | (chdir_failed) pre scripts i d m where "inputs_read env pre scripts"
      "trace (run env w) = pre @
         [(install_call i, Returned), (launch_call i, Returned), (Chdir d, Threw m),
          (SetFailed m, Returned), (KillEmulator, Returned)]"
      "exitCode (run env w) = 1"
  | (completed) pre scripts i where "inputs_read env pre scripts"
      "trace (run env w) = pre @ [(install_call i, Returned), (launch_call i, Returned)] @
         chdir_events (workingDirectory i) @ map (\<lambda>c. (sh_c c, Returned)) scripts @
         [(KillEmulator, Returned)]"
      "exitCode (run env w) = 0"
  | (script_failed) pre scripts i k m where "inputs_read env pre scripts" "k < length scripts"
      "trace (run env w) = pre @ [(install_call i, Returned), (launch_call i, Returned)] @
         chdir_events (workingDirectory i) @ map (\<lambda>c. (sh_c c, Returned)) (take k scripts) @
         [(sh_c (scripts ! k), Threw m), (SetFailed m, Returned), (KillEmulator, Returned)]"
      "exitCode (run env w) = 1"
proof -
  define s0 :: "('w, 'n) state" where "s0 = \<lparr>trace = [], world = w, exitCode = 0\<rparr>"
  have s0: "trace s0 = []" "exitCode s0 = 0" by (simp_all add: s0_def)
  show ?thesis
  proof (cases rule: check_platform_cases [of env s0])
    case unsupported
    then have "run_try env s0 =
        (Inl ''Unsupported virtual machine: please use either macos or ubuntu VM.'', s0)"
      by (simp add: run_try_def bnd_Inl)
    from run_threw [of env w, folded s0_def, OF this] unsupported(1,2) s0 show ?thesis
      by (intro that(1)) simp_all
  next
    case (supported hd)
    define s1 where "s1 = s0\<lparr>trace := trace s0 @ hd\<rparr>"
    have s1: "trace s1 = hd" "exitCode s1 = 0" by (simp_all add: s1_def s0)
    from supported have cp: "check_platform env s0 = (Inr (), s1)" by (simp add: s1_def)
    from tracks_read_inputs [of env] show ?thesis
    proof (cases rule: tracksD [where s = s1])
      case (threw e pre c)
      with cp have "run_try env s0 = (Inl e, s1\<lparr>trace := trace s1 @ pre @ [(c, Threw e)]\<rparr>)"
        by (simp add: run_try_def bnd_Inl bnd_Inr)
      from run_threw [of env w, folded s0_def, OF this] threw(2,3) supported(2) s1
      show ?thesis by (intro that(2) [of "hd @ pre" c e]) (simp_all add: input_phase_def)
    next
      case (returned i evs)
      define s2 where "s2 = s1\<lparr>trace := trace s1 @ evs\<rparr>"
      have s2: "trace s2 = hd @ evs" "exitCode s2 = 0" by (simp_all add: s2_def s1)
      from returned have ri: "read_inputs env s1 = (Inr i, s2)" by (simp add: s2_def)
      have q2: "quiet (input_phase env) (trace s2)"
        using supported(2) returned(2) s2 by simp
      from read_inputs_ok [OF ri] have a2: "all_checks_passed env (trace s2)" .
      have rt2: "run_try env s0 =
        bnd (read_script env) (\<lambda>(scripts, pending).
          bnd (await pending (install env i)) (\<lambda>_.
          bnd (launch env i) (\<lambda>_.
          bnd (execute_script env (workingDirectory i) scripts) (\<lambda>_.
          kill env)))) s2"
        using cp ri by (simp add: run_try_def bnd_Inr)
      show ?thesis
      proof (cases "getInput env ''script'' True")
        case (Inl m)
        then have "read_script env s2 =
            (Inl m, s2\<lparr>trace := trace s2 @ [(GetInput ''script'' True, Threw m)]\<rparr>)"
          by (simp add: read_script_result)
        with rt2 have "run_try env s0 =
            (Inl m, s2\<lparr>trace := trace s2 @ [(GetInput ''script'' True, Threw m)]\<rparr>)"
          by (simp add: bnd_Inl)
        from run_threw [of env w, folded s0_def, OF this] q2 show ?thesis
          by (intro that(2) [of "trace s2" "GetInput ''script'' True" m])
             (simp_all add: prelude_phase_def)
      next
        case (Inr src)
        show ?thesis
        proof (cases "parseScript env src")
          case (Inl m)
          with Inr have "read_script env s2 =
              (Inl m, s2\<lparr>trace := trace s2 @
                 [(GetInput ''script'' True, Returned), (ParseScript src, Threw m)]\<rparr>)"
            by (simp add: read_script_result)
          with rt2 have "run_try env s0 =
              (Inl m, s2\<lparr>trace := trace s2 @
                 [(GetInput ''script'' True, Returned), (ParseScript src, Threw m)]\<rparr>)"
            by (simp add: bnd_Inl)
          from run_threw [of env w, folded s0_def, OF this] q2 show ?thesis
            by (intro that(2) [of "trace s2 @ [(GetInput ''script'' True, Returned)]"
                  "ParseScript src" m])
               (simp_all add: input_phase_def prelude_phase_def)
        next
          case scripts: (Inr scripts)
          define pre where "pre = trace s2 @
                 [(GetInput ''script'' True, Returned), (ParseScript src, Returned),
                  (ConsoleLog ''Script:'', Returned)] @ script_log scripts"
          define s3 where "s3 = s2\<lparr>trace := pre\<rparr>"
          have s3: "trace s3 = pre" "exitCode s3 = 0" by (simp_all add: s3_def s2)
          from Inr scripts have rs: "read_script env s2 = (Inr (scripts, []), s3)"
            by (simp add: read_script_result s3_def pre_def script_log_def)
          have ir: "inputs_read env pre scripts"
            unfolding inputs_read_def
          proof (intro conjI)
            show "all_checks_passed env pre"
              unfolding pre_def by (rule all_checks_passed_mono [OF a2])
            have qb: "quiet (input_phase env) (trace s2 @ [(GetInput ''script'' True, Returned)])"
              using q2 by (simp add: input_phase_def prelude_phase_def)
            have pe: "pre = (trace s2 @ [(GetInput ''script'' True, Returned)]) @
                     [(ParseScript src, Returned), (ConsoleLog ''Script:'', Returned)] @
                     script_log scripts"
              unfolding pre_def by simp
            have ex: "\<exists>before. quiet (input_phase env) before \<and> pre = before @
                     [(ParseScript src, Returned), (ConsoleLog ''Script:'', Returned)] @
                     script_log scripts"
              by (rule exI [where x = "trace s2 @ [(GetInput ''script'' True, Returned)]"])
                 (intro conjI qb pe)
            show "case getInput env ''script'' True of Inl x \<Rightarrow> False
              | Inr src \<Rightarrow> parseScript env src = Inr scripts \<and>
                  (\<exists>before. quiet (input_phase env) before \<and> pre = before @
                     [(ParseScript src, Returned), (ConsoleLog ''Script:'', Returned)] @
                     script_log scripts)"
              unfolding Inr sum.case scripts using ex by (intro conjI refl)
          qed
          have rt3: "run_try env s0 =
              bnd (install env i) (\<lambda>_.
              bnd (launch env i) (\<lambda>_.
              bnd (execute_script env (workingDirectory i) scripts) (\<lambda>_.
              kill env))) s3"
            using rt2 rs by (simp add: bnd_Inr await_Nil)
          show ?thesis
          proof (cases rule: world_call_cases [of "install_call i"
                "installAndroidSdk env (apiLevel i) (target i) (arch i) (channelId i)
                   (emulatorBuild i) (ndkVersion i) (cmakeVersion i)" s3])
            case (threw m w')
            with rt3 have "run_try env s0 =
                (Inl m, s3\<lparr>world := w', trace := trace s3 @ [(install_call i, Threw m)]\<rparr>)"
              by (simp add: install_def bnd_Inl)
            from run_threw [of env w, folded s0_def, OF this] ir s3 show ?thesis
              by (intro that(3) [of pre scripts i m]) simp_all
          next
            case (returned w4)
            define s4 where "s4 = s3\<lparr>world := w4, trace := trace s3 @ [(install_call i, Returned)]\<rparr>"
            have s4: "trace s4 = pre @ [(install_call i, Returned)]" "exitCode s4 = 0"
              by (simp_all add: s4_def s3)
            from returned rt3 have rt4: "run_try env s0 =
                bnd (launch env i) (\<lambda>_.
                bnd (execute_script env (workingDirectory i) scripts) (\<lambda>_.
                kill env)) s4"
              by (simp add: install_def bnd_Inr s4_def)
            show ?thesis
            proof (cases rule: world_call_cases [of "launch_call i"
                "launchEmulator env (apiLevel i) (target i) (arch i) (profile i) (cores i)
                   (ramSize i) (sdcardPathOrSize i) (avdName i) (forceAvdCreation i)
                   (emulatorOptions i) (disableAnimations i) (disableSpellchecker i)
                   (disableLinuxHardwareAcceleration i) (enableHardwareKeyboard i)" s4])
              case (threw m w')
              with rt4 have "run_try env s0 =
                  (Inl m, s4\<lparr>world := w', trace := trace s4 @ [(launch_call i, Threw m)]\<rparr>)"
                by (simp add: launch_def bnd_Inl)
              from run_threw [of env w, folded s0_def, OF this] ir s4 show ?thesis
                by (intro that(4) [of pre scripts i m]) simp_all
            next
              case (returned w5)
              define s5 where
                "s5 = s4\<lparr>world := w5, trace := trace s4 @ [(launch_call i, Returned)]\<rparr>"
              have s5: "trace s5 = pre @ [(install_call i, Returned), (launch_call i, Returned)]"
                "exitCode s5 = 0"
                by (simp_all add: s5_def s4)
              obtain r6 s6 where
                es: "execute_script env (workingDirectory i) scripts s5 = (r6, s6)"
                by (cases "execute_script env (workingDirectory i) scripts s5")
              from execute_script_shape [OF es] have r6: "r6 = Inr ()" by blast
              from returned rt4 es r6 have "run_try env s0 = kill env s6"
                by (simp add: launch_def bnd_Inr s5_def)
              then have "run_try env s0 =
                  (Inr (), emit KillEmulator Returned (s6\<lparr>world := killEmulator env (world s6)\<rparr>))"
                by (simp add: kill_def)
              from run_returned [of env w, folded s0_def, OF this]
              have fin: "trace (run env w) = trace s6 @ [(KillEmulator, Returned)]"
                "exitCode (run env w) = exitCode s6"
                by (simp_all add: emit_def)
              from execute_script_shape [OF es] consider
                (cd) d m where "workingDirectory i = Some d" "exitCode s6 = 1"
                  "trace s6 = trace s5 @ [(Chdir d, Threw m), (SetFailed m, Returned)]"
              | (ok) "exitCode s6 = exitCode s5"
                  "trace s6 = trace s5 @ chdir_events (workingDirectory i) @
                     map (\<lambda>c. (sh_c c, Returned)) scripts"
              | (bad) k m where "k < length scripts" "exitCode s6 = 1"
                  "trace s6 = trace s5 @ chdir_events (workingDirectory i) @
                     map (\<lambda>c. (sh_c c, Returned)) (take k scripts) @
                     [(sh_c (scripts ! k), Threw m), (SetFailed m, Returned)]"
                by blast
              then show ?thesis
              proof cases
                case cd
                with fin s5 ir show ?thesis
                  by (intro that(5) [of pre scripts i d m]) simp_all
              next
                case ok
                with fin s5 ir show ?thesis
                  by (intro that(6) [of pre scripts i]) simp_all
              next
                case bad
                with fin s5 ir show ?thesis
                  by (intro that(7) [of pre scripts k i m]) simp_all
              qed
            qed
          qed
        qed
      qed
    qed
  qed
qed

subsection \<open>The emulator is always killed\<close>

lemma quietD: "quiet P evs \<Longrightarrow> (c, r) \<in> set evs \<Longrightarrow> P c \<and> r = Returned"
  by (auto simp: quiet_def list_all_iff)

lemma input_call_kinds:
  "input_call c \<Longrightarrow>
     \<not> side_effecting c \<and> \<not> is_install c \<and> \<not> is_launch c \<and> \<not> is_exec c \<and>
     \<not> is_setFailed c \<and> c \<noteq> KillEmulator"
  by (cases c) simp_all

lemma prelude_phase_kinds:
  "prelude_phase env c \<Longrightarrow>
     \<not> side_effecting c \<and> \<not> is_install c \<and> \<not> is_launch c \<and> \<not> is_exec c \<and>
     \<not> is_setFailed c \<and> c \<noteq> KillEmulator"
  by (simp add: prelude_phase_def input_call_kinds)

lemma quiet_mono: "quiet P evs \<Longrightarrow> (\<And>c. P c \<Longrightarrow> Q c) \<Longrightarrow> quiet Q evs"
  by (auto simp: quiet_def list_all_iff)

lemma inputs_read_quiet:
  assumes "inputs_read env pre scripts"
  shows "quiet (prelude_phase env) pre"
proof -
  from assms obtain src before where
    "quiet (input_phase env) before"
    "pre = before @ [(ParseScript src, Returned), (ConsoleLog ''Script:'', Returned)] @
       script_log scripts"
    by (auto simp: inputs_read_def split: sum.splits)
  moreover from this(1) have "quiet (prelude_phase env) before"
    by (rule quiet_mono) (simp_all add: input_phase_def)
  ultimately show ?thesis
    by (simp add: quiet_script_log prelude_phase_def)
qed

lemma input_quietD: "quiet (input_phase env) pre \<Longrightarrow> quiet (prelude_phase env) pre"
  by (erule quiet_mono) (simp add: input_phase_def)

lemma prelude_memD:
  "quiet (prelude_phase env) pre \<Longrightarrow> (c, r) \<in> set pre \<Longrightarrow>
     r = Returned \<and> input_call c \<and> target_canonical env c \<and>
     \<not> side_effecting c \<and> \<not> is_install c \<and> \<not> is_launch c \<and> \<not> is_exec c \<and>
     \<not> is_setFailed c \<and> c \<noteq> KillEmulator"
  by (auto dest!: quietD simp: prelude_phase_def dest: input_call_kinds)

lemma kinds_simps [simp]:
  "\<not> side_effecting KillEmulator" "\<not> side_effecting (SetFailed m)"
  "side_effecting (install_call i)" "side_effecting (launch_call i)" "side_effecting (sh_c c)"
  "is_install (install_call i)" "\<not> is_install (launch_call i)" "\<not> is_install (sh_c c)"
  "\<not> is_launch (install_call i)" "is_launch (launch_call i)" "\<not> is_launch (sh_c c)"
  "\<not> is_exec (install_call i)" "\<not> is_exec (launch_call i)" "is_exec (sh_c c)"
  "\<not> is_setFailed (install_call i)" "\<not> is_setFailed (launch_call i)" "\<not> is_setFailed (sh_c c)"
  "install_call i \<noteq> KillEmulator" "launch_call i \<noteq> KillEmulator" "sh_c c \<noteq> KillEmulator"
  "\<not> is_validation (install_call i)" "\<not> is_validation (launch_call i)" "\<not> is_validation (sh_c c)"
  "\<not> is_parse (install_call i)" "\<not> is_parse (launch_call i)" "\<not> is_parse (sh_c c)"
  by (simp_all add: install_call_def launch_call_def sh_c_def)

lemma set_chdir_events:
  "e \<in> set (chdir_events wd) \<Longrightarrow> \<exists>d. e = (Chdir d, Returned)"
  by (auto simp: chdir_events_def split: option.splits)

text \<open>
  Claim C8. On every platform other than \<^verbatim>\<open>darwin\<close> and \<^verbatim>\<open>linux\<close>, \<^verbatim>\<open>run()\<close> throws the
  "Unsupported virtual machine" error before it reads or validates any input: the trace
  holds no \<^verbatim>\<open>getInput\<close> and no check. The outer handler still calls \<^verbatim>\<open>killEmulator\<close>,
  although nothing was launched, and then reports the message; the exit code is 1.
\<close>

theorem unsupported_platform_still_kills:
  assumes "platform env \<noteq> ''darwin''" and "platform env \<noteq> ''linux''"
  shows "trace (run env w) =
           [(KillEmulator, Returned),
            (SetFailed ''Unsupported virtual machine: please use either macos or ubuntu VM.'',
             Returned)] \<and>
         world (run env w) = killEmulator env w \<and> exitCode (run env w) = 1"
  using assms
  by (simp add: run_def try_catch_def run_try_def bnd_def check_platform_def kill_def
      setFailed_def emit_def)

lemma run_demo_windows:
  "run demo_windows 0 =
     \<lparr>trace = [(KillEmulator, Returned),
        (SetFailed ''Unsupported virtual machine: please use either macos or ubuntu VM.'',
         Returned)],
      world = 1, exitCode = 1\<rparr>"
  by (simp add: run_def try_catch_def run_try_def bnd_def check_platform_def kill_def
      setFailed_def emit_def demo_windows_def demo_def)

theorem unsupported_platform_still_kills_witness:
  "platform demo_windows \<noteq> ''darwin'' \<and> platform demo_windows \<noteq> ''linux'' \<and>
   trace (run demo_windows 0) =
     [(KillEmulator, Returned),
      (SetFailed ''Unsupported virtual machine: please use either macos or ubuntu VM.'',
       Returned)] \<and>
   world (run demo_windows 0) = killEmulator demo_windows 0 \<and>
   exitCode (run demo_windows 0) = 1"
  using unsupported_platform_still_kills [of demo_windows 0]
  by (simp add: demo_windows_def demo_def)

lemma kill_once_intro:
  assumes "t = pre @ (KillEmulator, Returned) # post"
    and "\<forall>e\<in>set pre. fst e \<noteq> KillEmulator"
    and "post = [] \<or> (\<exists>m. post = [(SetFailed m, Returned)])"
  shows "length (filter (\<lambda>e. fst e = KillEmulator) t) = 1 \<and>
    (\<exists>pre post. t = pre @ (KillEmulator, Returned) # post \<and>
       (post = [] \<or> (\<exists>m. post = [(SetFailed m, Returned)])))"
proof -
  from assms(2) have "filter (\<lambda>e. fst e = KillEmulator) pre = []"
    by (simp add: filter_empty_conv)
  with assms(1,3) have "length (filter (\<lambda>e. fst e = KillEmulator) t) = 1" by auto
  with assms(1,3) show ?thesis by blast
qed

lemma kill_last:
  assumes "t = pre @ [(KillEmulator, Returned)]"
    and "\<forall>e\<in>set pre. fst e \<noteq> KillEmulator"
  shows "length (filter (\<lambda>e. fst e = KillEmulator) t) = 1 \<and>
    (\<exists>pre post. t = pre @ (KillEmulator, Returned) # post \<and>
       (post = [] \<or> (\<exists>m. post = [(SetFailed m, Returned)])))"
  using assms by (intro kill_once_intro [where pre = pre and post = "[]"]) simp_all

lemma kill_then_setFailed:
  assumes "t = pre @ [(KillEmulator, Returned), (SetFailed m, Returned)]"
    and "\<forall>e\<in>set pre. fst e \<noteq> KillEmulator"
  shows "length (filter (\<lambda>e. fst e = KillEmulator) t) = 1 \<and>
    (\<exists>pre post. t = pre @ (KillEmulator, Returned) # post \<and>
       (post = [] \<or> (\<exists>m. post = [(SetFailed m, Returned)])))"
  using assms
  by (intro kill_once_intro [where pre = pre and post = "[(SetFailed m, Returned)]"]) simp_all

text \<open>
  Claim C1. In every run, whatever fails or does not fail, \<^verbatim>\<open>killEmulator\<close> is called
  exactly once, the call returns, and the only thing that can follow it before the run
  ends is the report of the failure by the outer handler.
\<close>

theorem killEmulator_exactly_once:
  "length (filter (\<lambda>e. fst e = KillEmulator) (trace (run env w))) = 1 \<and>
   (\<exists>pre post. trace (run env w) = pre @ (KillEmulator, Returned) # post \<and>
      (post = [] \<or> (\<exists>m. post = [(SetFailed m, Returned)])))"
proof (cases rule: run_cases [of env w])
  case unsupported
  then show ?thesis by (intro kill_then_setFailed [where pre = "[]"]) simp_all
next
  case (input_failed pre c m)
  then show ?thesis
    by (intro kill_then_setFailed [where pre = "pre @ [(c, Threw m)]" and m = m])
       (auto dest!: input_quietD dest: prelude_memD simp: prelude_phase_def)
next
  case (install_failed pre scripts i m)
  then show ?thesis
    by (intro kill_then_setFailed [where pre = "pre @ [(install_call i, Threw m)]" and m = m])
       (auto dest!: inputs_read_quiet dest: prelude_memD)
next
  case (launch_failed pre scripts i m)
  then show ?thesis
    by (intro kill_then_setFailed [where pre =
          "pre @ [(install_call i, Returned), (launch_call i, Threw m)]" and m = m])
       (auto dest!: inputs_read_quiet dest: prelude_memD)
next
  case (chdir_failed pre scripts i d m)
  then show ?thesis
    by (intro kill_last [where pre =
          "pre @ [(install_call i, Returned), (launch_call i, Returned), (Chdir d, Threw m),
             (SetFailed m, Returned)]"])
       (auto dest!: inputs_read_quiet dest: prelude_memD)
next
  case (completed pre scripts i)
  then show ?thesis
    by (intro kill_last [where pre =
          "pre @ [(install_call i, Returned), (launch_call i, Returned)] @
             chdir_events (workingDirectory i) @ map (\<lambda>c. (sh_c c, Returned)) scripts"])
       (auto dest!: inputs_read_quiet set_chdir_events dest: prelude_memD)
next
  case (script_failed pre scripts i k m)
  then show ?thesis
    by (intro kill_last [where pre =
          "pre @ [(install_call i, Returned), (launch_call i, Returned)] @
             chdir_events (workingDirectory i) @
             map (\<lambda>c. (sh_c c, Returned)) (take k scripts) @
             [(sh_c (scripts ! k), Threw m), (SetFailed m, Returned)]"])
       (auto dest!: inputs_read_quiet set_chdir_events dest: prelude_memD)
qed

subsection \<open>Failures\<close>

lemma call_neq_simps [simp]:
  "Exec a b \<noteq> install_call i" "install_call i \<noteq> Exec a b"
  "Exec a b \<noteq> launch_call i" "launch_call i \<noteq> Exec a b"
  "(Exec a b = sh_c c) = (a = ''sh'' \<and> b = [''-c'', c])"
  "(sh_c c = Exec a b) = (a = ''sh'' \<and> b = [''-c'', c])"
  "SetFailed m \<noteq> install_call i" "SetFailed m \<noteq> launch_call i" "SetFailed m \<noteq> sh_c c"
  "ParseScript src \<noteq> install_call i" "ParseScript src \<noteq> launch_call i"
  "ParseScript src \<noteq> sh_c c"
  "CheckTarget a' \<noteq> install_call i" "CheckTarget a' \<noteq> launch_call i"
  "CheckTarget a' \<noteq> sh_c c"
  by (auto simp: install_call_def launch_call_def sh_c_def)

lemma not_setFailed_prelude:
  "quiet (prelude_phase env) pre \<Longrightarrow> filter (\<lambda>e. is_setFailed (fst e)) pre = []"
  by (auto simp: filter_empty_conv dest: prelude_memD)

lemma not_setFailed_chdir [simp]:
  "filter (\<lambda>e. is_setFailed (fst e)) (chdir_events wd) = []"
  by (simp add: chdir_events_def split: option.splits)

lemma not_setFailed_sh [simp]:
  "filter (\<lambda>e. is_setFailed (fst e)) (map (\<lambda>c. (sh_c c, r)) cs) = []"
  by (induction cs) simp_all

text \<open>
  Claim C2. When a script command exits with a non-zero status (\<^verbatim>\<open>exec.exec\<close> throws), the
  failure is reported with \<^verbatim>\<open>core.setFailed\<close> and \<^verbatim>\<open>killEmulator\<close> runs right after the
  report: these three calls are the end of the trace.
\<close>

theorem script_failure_reported_then_killed:
  assumes "(Exec cmd args, Threw m) \<in> set (trace (run env w))"
  shows "\<exists>pre. trace (run env w) =
           pre @ [(Exec cmd args, Threw m), (SetFailed m, Returned), (KillEmulator, Returned)]"
proof (cases rule: run_cases [of env w])
  case unsupported
  with assms show ?thesis by simp
next
  case (input_failed pre c m')
  with assms show ?thesis
    by (auto dest!: input_quietD dest: prelude_memD simp: prelude_phase_def)
next
  case (install_failed pre scripts i m')
  with assms show ?thesis
    by (auto dest!: inputs_read_quiet dest: prelude_memD)
next
  case (launch_failed pre scripts i m')
  with assms show ?thesis
    by (auto dest!: inputs_read_quiet dest: prelude_memD)
next
  case (chdir_failed pre scripts i d m')
  with assms show ?thesis
    by (auto dest!: inputs_read_quiet dest: prelude_memD)
next
  case (completed pre scripts i)
  with assms show ?thesis
    by (auto dest!: inputs_read_quiet set_chdir_events dest: prelude_memD)
next
  case (script_failed pre scripts i k m')
  with assms have "Exec cmd args = sh_c (scripts ! k) \<and> m = m'"
    by (auto dest!: inputs_read_quiet set_chdir_events dest: prelude_memD)
  with script_failed(3) show ?thesis
    by (intro exI [where x = "pre @ [(install_call i, Returned), (launch_call i, Returned)] @
         chdir_events (workingDirectory i) @
         map (\<lambda>c. (sh_c c, Returned)) (take k scripts)"]) simp
qed

text \<open>
  Claim C3, as amended. When one of the ten input checks throws, the run aborts at once:
  nothing that touches the disk or the device has been called before the check, every
  earlier call returned, and the only calls after it are those of the outer handler,
  which calls \<^verbatim>\<open>killEmulator\<close> once and then reports the message of the check; the exit
  code is 1. The claim as stated, that \<^verbatim>\<open>killEmulator\<close> is not called, does not hold.
\<close>

theorem validation_failure_aborts_then_kills:
  assumes "is_validation c" and "(c, Threw m) \<in> set (trace (run env w))"
  shows "\<exists>pre. trace (run env w) =
           pre @ [(c, Threw m), (KillEmulator, Returned), (SetFailed m, Returned)] \<and>
         (\<forall>e\<in>set pre. \<not> side_effecting (fst e) \<and> snd e = Returned) \<and>
         exitCode (run env w) = 1"
proof (cases rule: run_cases [of env w])
  case unsupported
  with assms show ?thesis by auto
next
  case (input_failed pre c' m')
  with assms have "c = c' \<and> m = m'"
    by (auto dest!: input_quietD dest: prelude_memD)
  with input_failed show ?thesis
    by (intro exI [where x = pre])
       (auto dest!: input_quietD dest: prelude_memD)
next
  case (install_failed pre scripts i m')
  with assms show ?thesis
    by (auto dest!: inputs_read_quiet dest: prelude_memD)
next
  case (launch_failed pre scripts i m')
  with assms show ?thesis
    by (auto dest!: inputs_read_quiet dest: prelude_memD)
next
  case (chdir_failed pre scripts i d m')
  with assms show ?thesis
    by (auto dest!: inputs_read_quiet dest: prelude_memD)
next
  case (completed pre scripts i)
  with assms show ?thesis
    by (auto dest!: inputs_read_quiet set_chdir_events dest: prelude_memD)
next
  case (script_failed pre scripts i k m')
  with assms show ?thesis
    by (auto dest!: inputs_read_quiet set_chdir_events dest: prelude_memD)
qed

text \<open>
  Claim C5. No script command is executed before \<^verbatim>\<open>launchEmulator\<close> has returned: in a
  trace that holds an \<^verbatim>\<open>exec.exec\<close> call, a call of \<^verbatim>\<open>launchEmulator\<close> that returned
  comes first, and no \<^verbatim>\<open>exec.exec\<close> call comes before it.
\<close>

theorem no_script_before_launch_returned:
  assumes "(Exec cmd args, r) \<in> set (trace (run env w))"
  shows "\<exists>pre l post. trace (run env w) = pre @ (l, Returned) # post \<and> is_launch l \<and>
           (\<forall>e\<in>set pre. \<not> is_exec (fst e))"
proof (cases rule: run_cases [of env w])
  case unsupported
  with assms show ?thesis by simp
next
  case (input_failed pre c m')
  with assms show ?thesis
    by (auto dest!: input_quietD dest: prelude_memD simp: prelude_phase_def)
next
  case (install_failed pre scripts i m')
  with assms show ?thesis
    by (auto dest!: inputs_read_quiet dest: prelude_memD)
next
  case (launch_failed pre scripts i m')
  with assms show ?thesis
    by (auto dest!: inputs_read_quiet dest: prelude_memD)
next
  case (chdir_failed pre scripts i d m')
  with assms show ?thesis
    by (auto dest!: inputs_read_quiet dest: prelude_memD)
next
  case (completed pre scripts i)
  then show ?thesis
    by (rule_tac x = "pre @ [(install_call i, Returned)]" in exI,
        rule_tac x = "launch_call i" in exI,
        rule_tac x = "chdir_events (workingDirectory i) @
          map (\<lambda>c. (sh_c c, Returned)) scripts @ [(KillEmulator, Returned)]" in exI)
       (auto dest!: inputs_read_quiet dest: prelude_memD)
next
  case (script_failed pre scripts i k m')
  then show ?thesis
    by (rule_tac x = "pre @ [(install_call i, Returned)]" in exI,
        rule_tac x = "launch_call i" in exI,
        rule_tac x = "chdir_events (workingDirectory i) @
          map (\<lambda>c. (sh_c c, Returned)) (take k scripts) @
          [(sh_c (scripts ! k), Threw m'), (SetFailed m', Returned),
           (KillEmulator, Returned)]" in exI)
       (auto dest!: inputs_read_quiet dest: prelude_memD)
qed

text \<open>
  Claim C6. In a run in which a call throws (the SDK installer, the launch of the
  emulator with its provisioning and boot, or a script command), \<^verbatim>\<open>core.setFailed\<close> is
  called exactly once, with the message of the error thrown, and the exit code is 1.
\<close>

theorem failure_reported_once:
  assumes "(c, Threw m) \<in> set (trace (run env w))"
  shows "filter (\<lambda>e. is_setFailed (fst e)) (trace (run env w)) = [(SetFailed m, Returned)] \<and>
         exitCode (run env w) = 1"
proof (cases rule: run_cases [of env w])
  case unsupported
  with assms show ?thesis by simp
next
  case (input_failed pre c' m')
  from input_failed(1) have q: "quiet (prelude_phase env) pre" by (rule input_quietD)
  with assms input_failed have "m = m'" by (auto dest: prelude_memD)
  with input_failed q show ?thesis
    by (auto simp: not_setFailed_prelude prelude_phase_def dest: input_call_kinds)
next
  case (install_failed pre scripts i m')
  from install_failed(1) have q: "quiet (prelude_phase env) pre" by (rule inputs_read_quiet)
  with assms install_failed have "m = m'" by (auto dest: prelude_memD)
  with install_failed q show ?thesis by (simp add: not_setFailed_prelude)
next
  case (launch_failed pre scripts i m')
  from launch_failed(1) have q: "quiet (prelude_phase env) pre" by (rule inputs_read_quiet)
  with assms launch_failed have "m = m'" by (auto dest: prelude_memD)
  with launch_failed q show ?thesis by (simp add: not_setFailed_prelude)
next
  case (chdir_failed pre scripts i d m')
  from chdir_failed(1) have q: "quiet (prelude_phase env) pre" by (rule inputs_read_quiet)
  with assms chdir_failed have "m = m'" by (auto dest: prelude_memD)
  with chdir_failed q show ?thesis by (simp add: not_setFailed_prelude)
next
  case (completed pre scripts i)
  with assms show ?thesis
    by (auto dest!: inputs_read_quiet set_chdir_events dest: prelude_memD)
next
  case (script_failed pre scripts i k m')
  from script_failed(1) have q: "quiet (prelude_phase env) pre" by (rule inputs_read_quiet)
  with assms script_failed have "m = m'"
    by (auto dest!: set_chdir_events dest: prelude_memD)
  with script_failed q show ?thesis by (simp add: not_setFailed_prelude)
qed

subsection \<open>Order of the phases\<close>

lemma inputs_readE:
  assumes "inputs_read env pre scripts"
  obtains src before where
    "getInput env ''script'' True = Inr src" "parseScript env src = Inr scripts"
    "quiet (input_phase env) before"
    "pre = before @ [(ParseScript src, Returned), (ConsoleLog ''Script:'', Returned)] @
       script_log scripts"
  using assms by (auto simp: inputs_read_def split: sum.splits)

lemma inputs_read_checks: "inputs_read env pre scripts \<Longrightarrow> all_checks_passed env pre"
  by (simp add: inputs_read_def)

lemma input_memD:
  "quiet (input_phase env) pre \<Longrightarrow> (c, r) \<in> set pre \<Longrightarrow> \<not> is_parse c"
  by (auto dest!: quietD simp: input_phase_def)

lemma kinds_chdir:
  "e \<in> set (chdir_events wd) \<Longrightarrow>
     \<not> is_validation (fst e) \<and> \<not> is_parse (fst e) \<and> \<not> is_exec (fst e) \<and>
     \<not> is_launch (fst e) \<and> snd e = Returned \<and> side_effecting (fst e)"
  by (auto simp: chdir_events_def split: option.splits)

lemma prelude_phase_not_side_effecting: "prelude_phase env c \<Longrightarrow> \<not> side_effecting c"
  by (simp add: prelude_phase_kinds)

text \<open>
  Claim C4. Every run splits into a first part with no call that touches the disk or
  the device (\<^verbatim>\<open>installAndroidSdk\<close>, \<^verbatim>\<open>launchEmulator\<close>, \<^verbatim>\<open>process.chdir\<close>, \<^verbatim>\<open>exec.exec\<close>)
  and a second part with no input check. When the second part holds such a call, every
  check that the code makes has been made, and has returned, in the first part
  (\<^verbatim>\<open>checkEmulatorBuild\<close> is made only for a non-empty \<^verbatim>\<open>emulator-build\<close> input). When a
  check throws, the run holds no such call at all.
\<close>

theorem validation_before_side_effects:
  "\<exists>pre post. trace (run env w) = pre @ post \<and>
     (\<forall>e\<in>set pre. \<not> side_effecting (fst e)) \<and>
     (\<forall>e\<in>set post. \<not> is_validation (fst e)) \<and>
     ((\<exists>e\<in>set post. side_effecting (fst e)) \<longrightarrow> all_checks_passed env pre) \<and>
     ((\<exists>e\<in>set (trace (run env w)). is_validation (fst e) \<and> snd e \<noteq> Returned) \<longrightarrow>
        (\<forall>e\<in>set (trace (run env w)). \<not> side_effecting (fst e)))"
proof (cases rule: run_cases [of env w])
  case unsupported
  then show ?thesis
    by (rule_tac x = "[]" in exI, rule_tac x = "trace (run env w)" in exI) simp
next
  case (input_failed pre c m)
  then show ?thesis
    by (rule_tac x = "pre @ [(c, Threw m)]" in exI,
        rule_tac x = "[(KillEmulator, Returned), (SetFailed m, Returned)]" in exI)
       (auto dest!: input_quietD dest: prelude_memD prelude_phase_not_side_effecting)
next
  case (install_failed pre scripts i m)
  from install_failed(1) have "all_checks_passed env pre" "quiet (prelude_phase env) pre"
    by (rule inputs_read_checks, rule inputs_read_quiet)
  with install_failed(2) show ?thesis
    by (rule_tac x = pre in exI,
        rule_tac x = "[(install_call i, Threw m), (KillEmulator, Returned),
          (SetFailed m, Returned)]" in exI)
       (auto dest: prelude_memD)
next
  case (launch_failed pre scripts i m)
  from launch_failed(1) have "all_checks_passed env pre" "quiet (prelude_phase env) pre"
    by (rule inputs_read_checks, rule inputs_read_quiet)
  with launch_failed(2) show ?thesis
    by (rule_tac x = pre in exI,
        rule_tac x = "[(install_call i, Returned), (launch_call i, Threw m),
          (KillEmulator, Returned), (SetFailed m, Returned)]" in exI)
       (auto dest: prelude_memD)
next
  case (chdir_failed pre scripts i d m)
  from chdir_failed(1) have "all_checks_passed env pre" "quiet (prelude_phase env) pre"
    by (rule inputs_read_checks, rule inputs_read_quiet)
  with chdir_failed(2) show ?thesis
    by (rule_tac x = pre in exI,
        rule_tac x = "[(install_call i, Returned), (launch_call i, Returned),
          (Chdir d, Threw m), (SetFailed m, Returned), (KillEmulator, Returned)]" in exI)
       (auto dest: prelude_memD)
next
  case (completed pre scripts i)
  from completed(1) have "all_checks_passed env pre" "quiet (prelude_phase env) pre"
    by (rule inputs_read_checks, rule inputs_read_quiet)
  with completed(2) show ?thesis
    by (rule_tac x = pre in exI,
        rule_tac x = "[(install_call i, Returned), (launch_call i, Returned)] @
          chdir_events (workingDirectory i) @ map (\<lambda>c. (sh_c c, Returned)) scripts @
          [(KillEmulator, Returned)]" in exI)
       (auto dest: prelude_memD kinds_chdir)
next
  case (script_failed pre scripts i k m)
  from script_failed(1) have "all_checks_passed env pre" "quiet (prelude_phase env) pre"
    by (rule inputs_read_checks, rule inputs_read_quiet)
  with script_failed(3) show ?thesis
    by (rule_tac x = pre in exI,
        rule_tac x = "[(install_call i, Returned), (launch_call i, Returned)] @
          chdir_events (workingDirectory i) @
          map (\<lambda>c. (sh_c c, Returned)) (take k scripts) @
          [(sh_c (scripts ! k), Threw m), (SetFailed m, Returned),
           (KillEmulator, Returned)]" in exI)
       (auto dest: prelude_memD kinds_chdir)
qed

lemma parse_then_log_then_install:
  assumes ir: "inputs_read env pre scripts"
    and t: "t = pre @ (c, r) # rest"
    and c: "is_install c"
    and rest: "\<forall>e\<in>set rest. \<not> is_parse (fst e)"
    and mem: "(ParseScript src, Returned) \<in> set t"
  shows "\<exists>scripts before c r rest. parseScript env src = Inr scripts \<and> is_install c \<and>
           t = before @ [(ParseScript src, Returned), (ConsoleLog ''Script:'', Returned)] @
             map (\<lambda>script. (ConsoleLog script, Returned)) scripts @ (c, r) # rest"
proof -
  from ir obtain src' before where
    p: "parseScript env src' = Inr scripts" and
    q: "quiet (input_phase env) before" and
    pre: "pre = before @ [(ParseScript src', Returned), (ConsoleLog ''Script:'', Returned)] @
       script_log scripts"
    by (rule inputs_readE)
  from c have "c \<noteq> ParseScript src" by (cases c) simp_all
  with mem t pre q rest have "src = src'"
    by (auto simp: script_log_def dest: input_memD)
  with p t pre show ?thesis
    by (rule_tac x = scripts in exI, rule_tac x = before in exI, rule_tac x = c in exI,
        rule_tac x = r in exI, rule_tac x = rest in exI)
       (simp add: c script_log_def)
qed

lemma script_log_shape:
  assumes "(ParseScript src, Returned) \<in> set (trace (run env w))"
  shows "\<exists>scripts before c r rest. parseScript env src = Inr scripts \<and> is_install c \<and>
           trace (run env w) =
             before @ [(ParseScript src, Returned), (ConsoleLog ''Script:'', Returned)] @
             map (\<lambda>script. (ConsoleLog script, Returned)) scripts @ (c, r) # rest"
proof (cases rule: run_cases [of env w])
  case unsupported
  with assms show ?thesis by simp
next
  case (input_failed pre c m)
  with assms show ?thesis by (auto dest: input_memD)
next
  case (install_failed pre scripts i m)
  show ?thesis
    by (rule parse_then_log_then_install [OF install_failed(1) _ _ _ assms,
          where c = "install_call i" and r = "Threw m" and
            rest = "[(KillEmulator, Returned), (SetFailed m, Returned)]"])
       (simp_all add: install_failed(2))
next
  case (launch_failed pre scripts i m)
  show ?thesis
    by (rule parse_then_log_then_install [OF launch_failed(1) _ _ _ assms,
          where c = "install_call i" and r = Returned and
            rest = "[(launch_call i, Threw m), (KillEmulator, Returned),
              (SetFailed m, Returned)]"])
       (simp_all add: launch_failed(2))
next
  case (chdir_failed pre scripts i d m)
  show ?thesis
    by (rule parse_then_log_then_install [OF chdir_failed(1) _ _ _ assms,
          where c = "install_call i" and r = Returned and
            rest = "[(launch_call i, Returned), (Chdir d, Threw m), (SetFailed m, Returned),
              (KillEmulator, Returned)]"])
       (simp_all add: chdir_failed(2))
next
  case (completed pre scripts i)
  show ?thesis
    by (rule parse_then_log_then_install [OF completed(1) _ _ _ assms,
          where c = "install_call i" and r = Returned and
            rest = "(launch_call i, Returned) # chdir_events (workingDirectory i) @
              map (\<lambda>c. (sh_c c, Returned)) scripts @ [(KillEmulator, Returned)]"])
       (auto simp: completed(2) dest: kinds_chdir)
next
  case (script_failed pre scripts i k m)
  show ?thesis
    by (rule parse_then_log_then_install [OF script_failed(1) _ _ _ assms,
          where c = "install_call i" and r = Returned and
            rest = "(launch_call i, Returned) # chdir_events (workingDirectory i) @
              map (\<lambda>c. (sh_c c, Returned)) (take k scripts) @
              [(sh_c (scripts ! k), Threw m), (SetFailed m, Returned),
               (KillEmulator, Returned)]"])
       (auto simp: script_failed(3) dest: kinds_chdir)
qed

subsection \<open>The script and the target\<close>

text \<open>
  Claim C7, as amended. The callback that logs the commands is async and its promise is
  not awaited, but its body has no \<^verbatim>\<open>await\<close>, so each line is logged during the call of
  \<^verbatim>\<open>forEach\<close>. In every run that parses its script, the trace holds, one after the other,
  the parse, the line \<^verbatim>\<open>Script:\<close>, the commands in the order of the parsed sequence, and
  the call of \<^verbatim>\<open>installAndroidSdk\<close>.
\<close>

theorem script_logged_in_order:
  assumes "(ParseScript src, Returned) \<in> set (trace (run env w))"
  shows "\<exists>scripts before c r rest. parseScript env src = Inr scripts \<and> is_install c \<and>
           trace (run env w) =
             before @ [(ParseScript src, Returned), (ConsoleLog ''Script:'', Returned)] @
             map (\<lambda>script. (ConsoleLog script, Returned)) scripts @ (c, r) # rest"
  using assms by (rule script_log_shape)

theorem script_log_order_counterexample:
  "\<not> (\<exists>(env :: (nat, nat) env) w src.
        (ParseScript src, Returned) \<in> set (trace (run env w)) \<and>
        \<not> (\<exists>scripts before c r rest. parseScript env src = Inr scripts \<and> is_install c \<and>
             trace (run env w) =
               before @ [(ParseScript src, Returned), (ConsoleLog ''Script:'', Returned)] @
               map (\<lambda>script. (ConsoleLog script, Returned)) scripts @ (c, r) # rest))"
proof (intro notI, elim exE conjE)
  fix env :: "(nat, nat) env" and w src
  assume parsed: "(ParseScript src, Returned) \<in> set (trace (run env w))"
    and out_of_order:
      "\<not> (\<exists>scripts before c r rest. parseScript env src = Inr scripts \<and> is_install c \<and>
             trace (run env w) =
               before @ [(ParseScript src, Returned), (ConsoleLog ''Script:'', Returned)] @
               map (\<lambda>script. (ConsoleLog script, Returned)) scripts @ (c, r) # rest)"
  from out_of_order script_log_shape [OF parsed] show False by (rule notE)
qed

lemma target_canonicalD:
  assumes "target_canonical env (CheckTarget a)"
  shows "\<exists>ti. getInput env ''target'' False = Inr ti \<and>
       a = (if ti = ''playstore'' then ''google_apis_playstore'' else ti)"
proof (cases "getInput env ''target'' False")
  case (Inl x)
  with assms show ?thesis by simp
next
  case (Inr t)
  with assms show ?thesis by (intro exI [where x = t]) simp
qed

lemma checks_target:
  assumes "all_checks_passed env pre"
  shows "\<exists>ti. getInput env ''target'' False = Inr ti \<and>
     (CheckTarget (if ti = ''playstore'' then ''google_apis_playstore'' else ti), Returned)
       \<in> set pre"
proof -
  from assms have c: "checked env ''target'' False
        (\<lambda>t. CheckTarget (if t = ''playstore'' then ''google_apis_playstore'' else t)) pre"
    by (simp add: all_checks_passed_def)
  show ?thesis
  proof (cases "getInput env ''target'' False")
    case (Inl x)
    with c show ?thesis by (simp add: checked_def)
  next
    case (Inr t)
    with c show ?thesis by (intro exI [where x = t]) (simp add: checked_def)
  qed
qed

lemma check_target_canonical:
  assumes "(CheckTarget a, r) \<in> set (trace (run env w))"
  shows "target_canonical env (CheckTarget a)"
proof (cases rule: run_cases [of env w])
  case unsupported
  with assms show ?thesis by simp
next
  case (input_failed pre c m)
  with assms show ?thesis
    by (auto dest!: input_quietD dest: prelude_memD simp: prelude_phase_def simp del: target_canonical.simps)
next
  case (install_failed pre scripts i m)
  with assms show ?thesis
    by (auto dest!: inputs_read_quiet dest: prelude_memD simp del: target_canonical.simps)
next
  case (launch_failed pre scripts i m)
  with assms show ?thesis
    by (auto dest!: inputs_read_quiet dest: prelude_memD simp del: target_canonical.simps)
next
  case (chdir_failed pre scripts i d m)
  with assms show ?thesis
    by (auto dest!: inputs_read_quiet dest: prelude_memD simp del: target_canonical.simps)
next
  case (completed pre scripts i)
  with assms show ?thesis
    by (auto dest!: inputs_read_quiet set_chdir_events dest: prelude_memD simp del: target_canonical.simps)
next
  case (script_failed pre scripts i k m)
  with assms show ?thesis
    by (auto dest!: inputs_read_quiet set_chdir_events dest: prelude_memD simp del: target_canonical.simps)
qed

lemma installed_checks_passed:
  assumes "(c, r) \<in> set (trace (run env w))" and "is_install c"
  shows "\<exists>pre. all_checks_passed env pre \<and> set pre \<subseteq> set (trace (run env w))"
proof (cases rule: run_cases [of env w])
  case unsupported
  with assms show ?thesis by auto
next
  case (input_failed pre c' m)
  with assms show ?thesis
    by (auto dest!: input_quietD dest: prelude_memD prelude_phase_kinds)
next
  case (install_failed pre scripts i m)
  then show ?thesis by (intro exI [where x = pre]) (auto simp: inputs_read_checks)
next
  case (launch_failed pre scripts i m)
  then show ?thesis by (intro exI [where x = pre]) (auto simp: inputs_read_checks)
next
  case (chdir_failed pre scripts i d m)
  then show ?thesis by (intro exI [where x = pre]) (auto simp: inputs_read_checks)
next
  case (completed pre scripts i)
  then show ?thesis by (intro exI [where x = pre]) (auto simp: inputs_read_checks)
next
  case (script_failed pre scripts i k m)
  then show ?thesis by (intro exI [where x = pre]) (auto simp: inputs_read_checks)
qed

text \<open>
  Claim C9. Every call of \<^verbatim>\<open>checkTarget\<close> gets the \<^verbatim>\<open>target\<close> input with \<^verbatim>\<open>playstore\<close>
  replaced by \<^verbatim>\<open>google_apis_playstore\<close> and every other value unchanged; and a run that
  reaches the SDK installer has made that call.
\<close>

theorem target_canonical_before_validation:
  "(\<forall>a r. (CheckTarget a, r) \<in> set (trace (run env w)) \<longrightarrow>
      (\<exists>ti. getInput env ''target'' False = Inr ti \<and>
         a = (if ti = ''playstore'' then ''google_apis_playstore'' else ti))) \<and>
   ((\<exists>e\<in>set (trace (run env w)). is_install (fst e)) \<longrightarrow>
      (\<exists>ti. getInput env ''target'' False = Inr ti \<and>
         (CheckTarget (if ti = ''playstore'' then ''google_apis_playstore'' else ti), Returned)
           \<in> set (trace (run env w))))"
proof (intro conjI allI impI)
  fix a r
  assume "(CheckTarget a, r) \<in> set (trace (run env w))"
  then have "target_canonical env (CheckTarget a)" by (rule check_target_canonical)
  then show "\<exists>ti. getInput env ''target'' False = Inr ti \<and>
         a = (if ti = ''playstore'' then ''google_apis_playstore'' else ti)"
    by (rule target_canonicalD)
next
  assume "\<exists>e\<in>set (trace (run env w)). is_install (fst e)"
  then obtain c r where "(c, r) \<in> set (trace (run env w))" "is_install c" by auto
  from installed_checks_passed [OF this] obtain pre where
    "all_checks_passed env pre" and t: "set pre \<subseteq> set (trace (run env w))"
    by (elim exE conjE)
  from checks_target [OF this(1)] obtain ti where
    "getInput env ''target'' False = Inr ti"
    "(CheckTarget (if ti = ''playstore'' then ''google_apis_playstore'' else ti), Returned)
       \<in> set pre" by (elim exE conjE)
  with t show "\<exists>ti. getInput env ''target'' False = Inr ti \<and>
         (CheckTarget (if ti = ''playstore'' then ''google_apis_playstore'' else ti), Returned)
           \<in> set (trace (run env w))"
    by auto
qed

lemma map_sh_c:
  "map (\<lambda>c. (sh_c c, r)) cs = map (\<lambda>c. (Exec ''sh'' [''-c'', c], r)) cs"
  by (simp add: sh_c_def)

text \<open>
  Claim C10. In a run that reaches the script loop (the emulator was launched and
  \<^verbatim>\<open>process.chdir\<close> did not throw), the commands of the parsed script are executed with
  \<^verbatim>\<open>sh -c\<close>, in order and with no other \<^verbatim>\<open>exec.exec\<close> call. Either all of them return,
  and then the emulator is killed and the exit code is 0; or the first command that
  throws is followed by no other command but by \<^verbatim>\<open>core.setFailed\<close> with its message and by
  \<^verbatim>\<open>killEmulator\<close>, and the exit code is 1.
\<close>

theorem scripts_run_in_order_until_first_failure:
  assumes "(l, Returned) \<in> set (trace (run env w))" and "is_launch l"
    and "\<And>d m. (Chdir d, Threw m) \<notin> set (trace (run env w))"
  shows "\<exists>src scripts before.
           getInput env ''script'' True = Inr src \<and> parseScript env src = Inr scripts \<and>
           (\<forall>e\<in>set before. \<not> is_exec (fst e)) \<and>
           ((trace (run env w) =
               before @ map (\<lambda>c. (Exec ''sh'' [''-c'', c], Returned)) scripts @
               [(KillEmulator, Returned)] \<and>
             exitCode (run env w) = 0) \<or>
            (\<exists>k m. k < length scripts \<and>
               trace (run env w) =
                 before @ map (\<lambda>c. (Exec ''sh'' [''-c'', c], Returned)) (take k scripts) @
                 [(Exec ''sh'' [''-c'', scripts ! k], Threw m), (SetFailed m, Returned),
                  (KillEmulator, Returned)] \<and>
               exitCode (run env w) = 1))"
proof (cases rule: run_cases [of env w])
  case unsupported
  with assms(1,2) show ?thesis by auto
next
  case (input_failed pre c m)
  with assms(1,2) show ?thesis
    by (auto dest!: input_quietD dest: prelude_memD)
next
  case (install_failed pre scripts i m)
  with assms(1,2) show ?thesis
    by (auto dest!: inputs_read_quiet dest: prelude_memD)
next
  case (launch_failed pre scripts i m)
  with assms(1,2) show ?thesis
    by (auto dest!: inputs_read_quiet dest: prelude_memD)
next
  case (chdir_failed pre scripts i d m)
  with assms(3) [of d m] show ?thesis by simp
next
  case (completed pre scripts i)
  define before where "before =
    pre @ [(install_call i, Returned), (launch_call i, Returned)] @
    chdir_events (workingDirectory i)"
  from completed(1) obtain src where
    src: "getInput env ''script'' True = Inr src" "parseScript env src = Inr scripts"
    by (rule inputs_readE)
  from completed(1) have "quiet (prelude_phase env) pre"
    by (rule inputs_read_quiet)
  then have nx: "\<forall>e\<in>set before. \<not> is_exec (fst e)"
    by (auto simp: before_def dest: prelude_memD kinds_chdir)
  have "trace (run env w) =
      before @ map (\<lambda>c. (Exec ''sh'' [''-c'', c], Returned)) scripts @
      [(KillEmulator, Returned)]"
    using completed(2) by (simp add: before_def map_sh_c)
  with src nx completed(3) show ?thesis
    by (rule_tac x = src in exI, rule_tac x = scripts in exI, rule_tac x = before in exI)
       (intro conjI disjI1; assumption)
next
  case (script_failed pre scripts i k m)
  define before where "before =
    pre @ [(install_call i, Returned), (launch_call i, Returned)] @
    chdir_events (workingDirectory i)"
  from script_failed(1) obtain src where
    src: "getInput env ''script'' True = Inr src" "parseScript env src = Inr scripts"
    by (rule inputs_readE)
  from script_failed(1) have "quiet (prelude_phase env) pre"
    by (rule inputs_read_quiet)
  then have nx: "\<forall>e\<in>set before. \<not> is_exec (fst e)"
    by (auto simp: before_def dest: prelude_memD kinds_chdir)
  have "k < length scripts \<and>
      trace (run env w) =
        before @ map (\<lambda>c. (Exec ''sh'' [''-c'', c], Returned)) (take k scripts) @
        [(Exec ''sh'' [''-c'', scripts ! k], Threw m), (SetFailed m, Returned),
         (KillEmulator, Returned)] \<and>
      exitCode (run env w) = 1"
    using script_failed(2,3,4) by (simp add: before_def map_sh_c)
  then have "\<exists>k m. k < length scripts \<and>
      trace (run env w) =
        before @ map (\<lambda>c. (Exec ''sh'' [''-c'', c], Returned)) (take k scripts) @
        [(Exec ''sh'' [''-c'', scripts ! k], Threw m), (SetFailed m, Returned),
         (KillEmulator, Returned)] \<and>
      exitCode (run env w) = 1"
    by (rule_tac x = k in exI, rule_tac x = m in exI)
  with src nx show ?thesis
    by (rule_tac x = src in exI, rule_tac x = scripts in exI, rule_tac x = before in exI)
       (intro conjI disjI2; assumption)
qed

subsection \<open>The concrete runs\<close>

lemmas run_unfold =
  run_def run_try_def try_catch_def bnd_def ret_def check_platform_def read_inputs_def
  read_script_def pure_call_def validate_def log_def console_log_def warn_def emit_def
  world_call_def install_def launch_def install_call_def launch_call_def execute_script_def
  sh_c_def kill_def setFailed_def await_def call_async_def log_script_def show_bool_def
  or_undefined_def

lemma run_demo:
  "run demo 0 =
    \<lparr>trace =
      [(GetInput ''api-level'' True, Returned),
       (CheckApiLevel ''29'', Returned),
       (ConsoleLog ''API level: 29'', Returned),
       (GetInput ''target'' False, Returned),
       (CheckTarget ''google_apis_playstore'', Returned),
       (ConsoleLog ''target: google_apis_playstore'', Returned),
       (GetInput ''arch'' False, Returned), (CheckArch [], Returned),
       (ConsoleLog ''CPU architecture: '', Returned),
       (GetInput ''profile'' False, Returned),
       (ConsoleLog ''Hardware profile: '', Returned),
       (GetInput ''cores'' False, Returned),
       (ConsoleLog ''Cores: '', Returned),
       (GetInput ''ram-size'' False, Returned),
       (ConsoleLog ''RAM size: '', Returned),
       (GetInput ''sdcard-path-or-size'' False, Returned),
       (ConsoleLog ''SD card path or size: '', Returned),
       (GetInput ''avd-name'' False, Returned),
       (ConsoleLog ''AVD name: '', Returned),
       (GetInput ''force-avd-creation'' False, Returned),
       (CheckForceAvdCreation [], Returned),
       (ConsoleLog ''force avd creation: false'', Returned),
       (GetInput ''emulator-options'' False, Returned),
       (ConsoleLog ''emulator options: '', Returned),
       (GetInput ''disable-animations'' False, Returned),
       (CheckDisableAnimations [], Returned),
       (ConsoleLog ''disable animations: false'', Returned),
       (GetInput ''disable-spellchecker'' False, Returned),
       (CheckDisableSpellchecker [], Returned),
       (ConsoleLog ''disable spellchecker: false'', Returned),
       (GetInput ''disable-linux-hw-accel'' False, Returned),
       (CheckDisableLinuxHardwareAcceleration [], Returned),
       (ConsoleLog ''disable Linux hardware acceleration: false'', Returned),
       (GetInput ''enable-hw-keyboard'' False, Returned),
       (CheckEnableHardwareKeyboard [], Returned),
       (ConsoleLog ''enable hardware keyboard: false'', Returned),
       (GetInput ''emulator-build'' False, Returned),
       (GetInput ''working-directory'' False, Returned),
       (GetInput ''ndk'' False, Returned),
       (GetInput ''cmake'' False, Returned),
       (GetInput ''channel'' False, Returned), (CheckChannel [], Returned),
       (GetChannelId [], Returned), (ConsoleLog ''Channel: 0 ()'', Returned),
       (GetInput ''script'' True, Returned),
       (ParseScript ''echo a; false; echo b'', Returned),
       (ConsoleLog ''Script:'', Returned), (ConsoleLog ''echo a'', Returned),
       (ConsoleLog ''false'', Returned), (ConsoleLog ''echo b'', Returned),
       (InstallAndroidSdk 29 ''google_apis_playstore'' [] 0 None None None, Returned),
       (LaunchEmulator 29 ''google_apis_playstore'' [] [] [] [] [] [] False []
          False False False False, Returned),
       (Exec ''sh'' [''-c'', ''echo a''], Returned),
       (Exec ''sh'' [''-c'', ''false''], Threw ''exit code 1''),
       (SetFailed ''exit code 1'', Returned), (KillEmulator, Returned)],
     world = 5, exitCode = 1\<rparr>"
  by (simp add: run_unfold demo_def demo_inputs_def)

lemma run_demo_invalid:
  "run demo_invalid 0 =
    \<lparr>trace =
      [(GetInput ''api-level'' True, Returned),
       (CheckApiLevel ''29'', Threw ''Unexpected API level''),
       (KillEmulator, Returned),
       (SetFailed ''Unexpected API level'', Returned)],
     world = 1, exitCode = 1\<rparr>"
  by (simp add: run_unfold demo_invalid_def demo_def demo_inputs_def)

theorem killEmulator_exactly_once_witness:
  "length (filter (\<lambda>e. fst e = KillEmulator) (trace (run demo 0))) = 1 \<and>
   (\<exists>pre post. trace (run demo 0) = pre @ (KillEmulator, Returned) # post \<and>
      (post = [] \<or> (\<exists>m. post = [(SetFailed m, Returned)])))"
  using killEmulator_exactly_once [of demo 0] .

theorem script_failure_reported_then_killed_witness:
  "(Exec ''sh'' [''-c'', ''false''], Threw ''exit code 1'') \<in> set (trace (run demo 0)) \<and>
   (\<exists>pre. trace (run demo 0) =
      pre @ [(Exec ''sh'' [''-c'', ''false''], Threw ''exit code 1''),
             (SetFailed ''exit code 1'', Returned), (KillEmulator, Returned)])"
proof -
  have threw: "(Exec ''sh'' [''-c'', ''false''], Threw ''exit code 1'') \<in> set (trace (run demo 0))"
    by (simp add: run_demo)
  from threw script_failure_reported_then_killed [OF threw] show ?thesis by (rule conjI)
qed

text \<open>
  The claim C3 as stated fails: in this run \<^verbatim>\<open>checkApiLevel\<close> throws and \<^verbatim>\<open>killEmulator\<close> is
  called all the same.
\<close>

theorem validation_failure_still_kills:
  "is_validation (CheckApiLevel ''29'' :: nat call) \<and>
   trace (run demo_invalid 0) =
     [(GetInput ''api-level'' True, Returned),
      (CheckApiLevel ''29'', Threw ''Unexpected API level''),
      (KillEmulator, Returned),
      (SetFailed ''Unexpected API level'', Returned)]"
  by (simp add: run_demo_invalid)

theorem validation_failure_aborts_then_kills_witness:
  "is_validation (CheckApiLevel ''29'' :: nat call) \<and>
   (CheckApiLevel ''29'', Threw ''Unexpected API level'') \<in> set (trace (run demo_invalid 0)) \<and>
   (\<exists>pre. trace (run demo_invalid 0) =
      pre @ [(CheckApiLevel ''29'', Threw ''Unexpected API level''), (KillEmulator, Returned),
             (SetFailed ''Unexpected API level'', Returned)] \<and>
      (\<forall>e\<in>set pre. \<not> side_effecting (fst e) \<and> snd e = Returned) \<and>
      exitCode (run demo_invalid 0) = 1)"
proof -
  have check: "is_validation (CheckApiLevel ''29'' :: nat call)" by simp
  have threw:
    "(CheckApiLevel ''29'', Threw ''Unexpected API level'') \<in> set (trace (run demo_invalid 0))"
    by (simp add: run_demo_invalid)
  from check threw validation_failure_aborts_then_kills [OF check threw] show ?thesis
    by (intro conjI)
qed

theorem validation_before_side_effects_witness:
  "(\<exists>pre post. trace (run demo 0) = pre @ post \<and>
      (\<exists>e\<in>set post. side_effecting (fst e)) \<and> all_checks_passed demo pre) \<and>
   (\<exists>e\<in>set (trace (run demo_invalid 0)). is_validation (fst e) \<and> snd e \<noteq> Returned) \<and>
   \<not> (\<exists>e\<in>set (trace (run demo_invalid 0)). side_effecting (fst e))"
proof -
  from validation_before_side_effects [of demo 0] obtain pre post where
    split: "trace (run demo 0) = pre @ post" and
    pre: "\<forall>e\<in>set pre. \<not> side_effecting (fst e)" and
    checks: "(\<exists>e\<in>set post. side_effecting (fst e)) \<longrightarrow> all_checks_passed demo pre"
    by (elim exE conjE)
  have "(InstallAndroidSdk 29 ''google_apis_playstore'' [] 0 None None None, Returned)
      \<in> set (trace (run demo 0))"
    by (simp add: run_demo)
  with split have "(InstallAndroidSdk 29 ''google_apis_playstore'' [] 0 None None None, Returned)
      \<in> set pre \<union> set post"
    by simp
  moreover from pre
  have "(InstallAndroidSdk 29 ''google_apis_playstore'' [] 0 None None None, Returned)
      \<notin> set pre"
    by auto
  ultimately
  have "(InstallAndroidSdk 29 ''google_apis_playstore'' [] 0 None None None, Returned)
      \<in> set post"
    by simp
  then have installs: "\<exists>e\<in>set post. side_effecting (fst e)"
    by (rule bexI [rotated]) simp
  with checks have "all_checks_passed demo pre" by (rule mp)
  with split installs have first:
    "\<exists>pre post. trace (run demo 0) = pre @ post \<and>
       (\<exists>e\<in>set post. side_effecting (fst e)) \<and> all_checks_passed demo pre"
    by (rule_tac x = pre in exI, rule_tac x = post in exI) (intro conjI; assumption)
  have threw:
    "\<exists>e\<in>set (trace (run demo_invalid 0)). is_validation (fst e) \<and> snd e \<noteq> Returned"
    by (simp add: run_demo_invalid)
  from validation_before_side_effects [of demo_invalid 0] have
    "(\<exists>e\<in>set (trace (run demo_invalid 0)). is_validation (fst e) \<and> snd e \<noteq> Returned) \<longrightarrow>
     (\<forall>e\<in>set (trace (run demo_invalid 0)). \<not> side_effecting (fst e))"
    by (elim exE conjE)
  with threw have "\<forall>e\<in>set (trace (run demo_invalid 0)). \<not> side_effecting (fst e)"
    by (rule rev_mp)
  then have "\<not> (\<exists>e\<in>set (trace (run demo_invalid 0)). side_effecting (fst e))"
    by (simp only: bex_simps ball_simps simp_thms)
  with first threw show ?thesis by (intro conjI)
qed

theorem no_script_before_launch_returned_witness:
  "(Exec ''sh'' [''-c'', ''echo a''], Returned) \<in> set (trace (run demo 0)) \<and>
   (\<exists>pre l post. trace (run demo 0) = pre @ (l, Returned) # post \<and> is_launch l \<and>
      (\<forall>e\<in>set pre. \<not> is_exec (fst e)))"
proof -
  have ran: "(Exec ''sh'' [''-c'', ''echo a''], Returned) \<in> set (trace (run demo 0))"
    by (simp add: run_demo)
  from ran no_script_before_launch_returned [OF ran] show ?thesis by (rule conjI)
qed

theorem failure_reported_once_witness:
  "(Exec ''sh'' [''-c'', ''false''], Threw ''exit code 1'') \<in> set (trace (run demo 0)) \<and>
   filter (\<lambda>e. is_setFailed (fst e)) (trace (run demo 0)) =
     [(SetFailed ''exit code 1'', Returned)] \<and>
   exitCode (run demo 0) = 1"
proof -
  have threw: "(Exec ''sh'' [''-c'', ''false''], Threw ''exit code 1'') \<in> set (trace (run demo 0))"
    by (simp add: run_demo)
  from threw failure_reported_once [OF threw] show ?thesis by (rule conjI)
qed

theorem script_logged_in_order_witness:
  "(ParseScript ''echo a; false; echo b'', Returned) \<in> set (trace (run demo 0)) \<and>
   (\<exists>scripts before c r rest.
      parseScript demo ''echo a; false; echo b'' = Inr scripts \<and> is_install c \<and>
      trace (run demo 0) =
        before @ [(ParseScript ''echo a; false; echo b'', Returned),
                  (ConsoleLog ''Script:'', Returned)] @
        map (\<lambda>script. (ConsoleLog script, Returned)) scripts @ (c, r) # rest)"
proof -
  have parsed: "(ParseScript ''echo a; false; echo b'', Returned) \<in> set (trace (run demo 0))"
    by (simp add: run_demo)
  from parsed script_logged_in_order [OF parsed] show ?thesis by (rule conjI)
qed

theorem target_canonical_before_validation_witness:
  "getInput demo ''target'' False = Inr ''playstore'' \<and>
   (CheckTarget ''google_apis_playstore'', Returned) \<in> set (trace (run demo 0)) \<and>
   (\<exists>ti. getInput demo ''target'' False = Inr ti \<and>
      ''google_apis_playstore'' = (if ti = ''playstore'' then ''google_apis_playstore'' else ti)) \<and>
   (\<exists>e\<in>set (trace (run demo 0)). is_install (fst e)) \<and>
   (\<exists>ti. getInput demo ''target'' False = Inr ti \<and>
      (CheckTarget (if ti = ''playstore'' then ''google_apis_playstore'' else ti), Returned)
        \<in> set (trace (run demo 0)))"
proof -
  have input: "getInput demo ''target'' False = Inr ''playstore''"
    by (simp add: demo_def demo_inputs_def)
  have checked: "(CheckTarget ''google_apis_playstore'', Returned) \<in> set (trace (run demo 0))"
    by (simp add: run_demo)
  have installed: "\<exists>e\<in>set (trace (run demo 0)). is_install (fst e)"
    by (simp add: run_demo)
  note claim = target_canonical_before_validation [of demo 0]
  from claim have
    "(CheckTarget ''google_apis_playstore'', Returned) \<in> set (trace (run demo 0)) \<longrightarrow>
      (\<exists>ti. getInput demo ''target'' False = Inr ti \<and>
         ''google_apis_playstore'' =
           (if ti = ''playstore'' then ''google_apis_playstore'' else ti))"
    by (elim conjE allE)
  with checked have canonical:
    "\<exists>ti. getInput demo ''target'' False = Inr ti \<and>
       ''google_apis_playstore'' = (if ti = ''playstore'' then ''google_apis_playstore'' else ti)"
    by (rule rev_mp)
  from claim have
    "(\<exists>e\<in>set (trace (run demo 0)). is_install (fst e)) \<longrightarrow>
      (\<exists>ti. getInput demo ''target'' False = Inr ti \<and>
         (CheckTarget (if ti = ''playstore'' then ''google_apis_playstore'' else ti), Returned)
           \<in> set (trace (run demo 0)))"
    by (elim conjE)
  with installed have
    "\<exists>ti. getInput demo ''target'' False = Inr ti \<and>
       (CheckTarget (if ti = ''playstore'' then ''google_apis_playstore'' else ti), Returned)
         \<in> set (trace (run demo 0))"
    by (rule rev_mp)
  with input checked canonical installed show ?thesis by (intro conjI)
qed

theorem scripts_run_in_order_until_first_failure_witness:
  "(LaunchEmulator 29 ''google_apis_playstore'' [] [] [] [] [] [] False []
      False False False False, Returned) \<in> set (trace (run demo 0)) \<and>
   is_launch (LaunchEmulator 29 ''google_apis_playstore'' [] [] [] [] [] [] False []
      False False False False :: nat call) \<and>
   \<not> (\<exists>d m. (Chdir d, Threw m) \<in> set (trace (run demo 0))) \<and>
   (\<exists>src scripts before.
      getInput demo ''script'' True = Inr src \<and> parseScript demo src = Inr scripts \<and>
      (\<forall>e\<in>set before. \<not> is_exec (fst e)) \<and>
      ((trace (run demo 0) =
          before @ map (\<lambda>c. (Exec ''sh'' [''-c'', c], Returned)) scripts @
          [(KillEmulator, Returned)] \<and>
        exitCode (run demo 0) = 0) \<or>
       (\<exists>k m. k < length scripts \<and>
          trace (run demo 0) =
            before @ map (\<lambda>c. (Exec ''sh'' [''-c'', c], Returned)) (take k scripts) @
            [(Exec ''sh'' [''-c'', scripts ! k], Threw m), (SetFailed m, Returned),
             (KillEmulator, Returned)] \<and>
          exitCode (run demo 0) = 1)))"
proof -
  have launched:
    "(LaunchEmulator 29 ''google_apis_playstore'' [] [] [] [] [] [] False []
        False False False False, Returned) \<in> set (trace (run demo 0))"
    by (simp add: run_demo)
  have is_launch:
    "is_launch (LaunchEmulator 29 ''google_apis_playstore'' [] [] [] [] [] [] False []
        False False False False :: nat call)"
    by simp
  have entered: "(Chdir d, Threw m) \<notin> set (trace (run demo 0))" for d m
    by (simp add: run_demo)
  then have entered': "\<not> (\<exists>d m. (Chdir d, Threw m) \<in> set (trace (run demo 0)))"
    by (simp only: not_ex simp_thms)
  from launched is_launch entered'
    scripts_run_in_order_until_first_failure [OF launched is_launch entered]
  show ?thesis by (intro conjI)
qed

end
